theory Spec2Isabelle
  imports Main
begin

text \<open>
  Page navigation and live refresh of the terminal dashboard: the application view with
  its current page pointer, draw queue and watch task, and the table views with their
  refresh loops and position memory. Every function of the source is a function on the
  application, which holds the table views and the channels in stores; a call that may
  panic or block returns a \<open>fault\<close> or the new application. The tasks of the program
  take turns between calls: a call is made as a whole, and what the runtime and the
  cluster decide (the choice of a select, the result of a re-fetch) is an argument.
\<close>

section \<open>Drawable surfaces of the widget toolkit\<close>

text \<open>
  The toolkit's primitives are pointers in the Go source. A table view is named by its
  address in the store of table views (\<open>TableP\<close>); a nil table view stored in an
  interface value is \<open>NilTableView\<close>, the nil interface value is \<open>NilP\<close>. A
  \<open>PagesP\<close> is a page container with its pages in order, each with its name, its item
  and its visibility; \<open>Center\<close> is the flex layout the function \<open>center\<close> builds
  around a primitive.
\<close>

datatype primitive =
    NilP
  | NilTableView
  | TableP nat
  | PagesP "(string \<times> primitive \<times> bool) list"
  | Center primitive nat nat
  | MenuP
  | StatusBar string bool
  | Widget nat

type_synonym pages = "(string \<times> primitive \<times> bool) list"

text \<open>
  The page container of the toolkit: \<open>AddPage\<close> drops the first page of the same
  name and appends the new one, \<open>SwitchToPage\<close> makes the page of that name the only
  visible one, and the front page is the last visible page.
\<close>

fun remove_page :: "string \<Rightarrow> pages \<Rightarrow> pages" where
  "remove_page name [] = []"
| "remove_page name (pg # ps) =
     (if fst pg = name then ps else pg # remove_page name ps)"

definition AddPage :: "string \<Rightarrow> primitive \<Rightarrow> bool \<Rightarrow> pages \<Rightarrow> pages" where
  "AddPage name item visible ps = remove_page name ps @ [(name, item, visible)]"

definition SwitchToPage :: "string \<Rightarrow> pages \<Rightarrow> pages" where
  "SwitchToPage name ps = map (\<lambda>pg. (fst pg, fst (snd pg), fst pg = name)) ps"

definition AddAndSwitchToPage :: "string \<Rightarrow> primitive \<Rightarrow> pages \<Rightarrow> pages" where
  "AddAndSwitchToPage name item ps = SwitchToPage name (AddPage name item True ps)"

definition GetFrontPage :: "pages \<Rightarrow> (string \<times> primitive) option" where
  "GetFrontPage ps =
     (case filter (\<lambda>pg. snd (snd pg)) (rev ps) of
        [] \<Rightarrow> None
      | pg # _ \<Rightarrow> Some (fst pg, fst (snd pg)))"

text \<open>The function \<open>center\<close> of the source.\<close>

definition center :: "primitive \<Rightarrow> nat \<Rightarrow> nat \<Rightarrow> primitive" where
  "center p width height = Center p width height"

section \<open>Channels of empty structs\<close>

text \<open>
  A channel carries no data, so it is its capacity, the number of buffered elements and
  the number of goroutines suspended in a send. A receive is ready when an element is
  buffered or a sender is suspended.
\<close>

record chan =
  cap :: nat
  buf :: nat
  senders :: nat

definition make_chan :: "nat \<Rightarrow> chan" where
  "make_chan n = \<lparr>cap = n, buf = 0, senders = 0\<rparr>"

definition chan_ready :: "chan \<Rightarrow> bool" where
  "chan_ready c = (0 < buf c \<or> 0 < senders c)"

definition chan_recv :: "chan \<Rightarrow> chan" where
  "chan_recv c =
     (if 0 < buf c then
        (if 0 < senders c then c\<lparr>senders := senders c - 1\<rparr> else c\<lparr>buf := buf c - 1\<rparr>)
      else c\<lparr>senders := senders c - 1\<rparr>)"

text \<open>A send made by a goroutine of its own: it is buffered, or the goroutine is suspended.\<close>

definition go_send :: "chan \<Rightarrow> chan" where
  "go_send c = (if buf c < cap c then c\<lparr>buf := buf c + 1\<rparr> else c\<lparr>senders := senders c + 1\<rparr>)"

text \<open>The number of signals sent and not yet received.\<close>

definition outstanding :: "chan \<Rightarrow> nat" where
  "outstanding c = buf c + senders c"

section \<open>The data model\<close>

record position =
  row :: int
  column :: int

record PageTrack =
  PageName :: string
  Primitive :: primitive

record ResourceKind =
  Kind :: string
  Title :: string

text \<open>
  Modelled from the spec: the data source of a table view (package datafeeder, not among
  the sources). It supplies the header and the rows of a resource kind on demand; its
  \<open>Refresh\<close> re-fetches them and reports failure. What a re-fetch yields is decided
  outside the program, so it is an input: the error message, or the new header and rows.
\<close>

record DataSource =
  Header :: "string list"
  Data :: "string list list"

type_synonym fetch = "string + (string list \<times> string list list)"

definition ds_Refresh :: "fetch \<Rightarrow> DataSource \<Rightarrow> string option \<times> DataSource" where
  "ds_Refresh f ds =
     (case f of
        Inl err \<Rightarrow> (Some err, ds)
      | Inr got \<Rightarrow> (None, \<lparr>Header = fst got, Data = snd got\<rparr>))"

text \<open>
  The struct \<open>tableView\<close>: \<open>sync\<close> is the address of its channel in the store of
  channels (nil is \<open>None\<close>), \<open>selected\<close> and \<open>cells\<close> are the selection and
  the cell texts of the embedded table, a nil data source is \<open>None\<close>. Colours, borders
  and input handlers are left out.
\<close>

record tableView =
  resourceKind :: ResourceKind
  dataSource :: "DataSource option"
  sync :: "nat option"
  search :: string
  selected :: position
  cells :: "string list list"
  title :: string

text \<open>
  The struct \<open>AppView\<close>. The field \<open>context\<close> of the source is \<open>ctx\<close> here: the
  address of a context in \<open>contexts\<close>, the store of the contexts made so far, each with
  its cancelled flag; nil is \<open>None\<close>. \<open>views\<close> and \<open>chans\<close> are the stores of table
  views and of channels. \<open>draws\<close> counts the calls of the application's \<open>Draw\<close>,
  \<open>timers\<close> the goroutines that sleep before they switch to the root page.
  A nil map is \<open>None\<close> where the source writes to the map; \<open>syncs\<close> is only read.
  \<open>currentPrimitive\<close> is the field \<open>UpdateStatus\<close> reads; nothing in the sources
  assigns it.
\<close>

record AppView =
  contexts :: "bool list"
  ctx :: "nat option"
  k8sVersion :: string
  content :: pages
  focus :: "primitive option"
  drawQueue :: "PageTrack list"
  tableViews :: "(string \<rightharpoonup> nat) option"
  pageRows :: "string \<rightharpoonup> position"
  showMenu :: bool
  currentPage :: string
  currentPrimitive :: primitive
  switchPage :: "chan option"
  syncs :: "string \<rightharpoonup> nat"
  views :: "tableView list"
  chans :: "chan list"
  draws :: nat
  timers :: nat

text \<open>
  What a call does other than return: it panics, it blocks (a send that no receive has
  made room for), or it returns an error value.
\<close>

datatype fault = Panic | Blocks | Error string

text \<open>
  Modelled from the spec: the constant \<open>RootPage\<close>, whose declaration is not among the
  sources; the spec names the root page "root".
\<close>

definition RootPage :: string where
  "RootPage = ''root''"

text \<open>Reading a map of table views: a nil map and a missing key both give nil.\<close>

definition lookup_view :: "AppView \<Rightarrow> string \<Rightarrow> nat option" where
  "lookup_view app name = (case tableViews app of None \<Rightarrow> None | Some m \<Rightarrow> m name)"

definition view_primitive :: "nat option \<Rightarrow> primitive" where
  "view_primitive v = (case v of None \<Rightarrow> NilTableView | Some t \<Rightarrow> TableP t)"

section \<open>The draw queue\<close>

text \<open>
  Modelled from the spec: the type \<open>PrimitiveQueue\<close> and its methods, which are not
  among the sources. \<open>Enqueue\<close> appends to the end, with no deduplication and no cap;
  \<open>Dequeue\<close> removes the last element and does nothing on an empty queue; \<open>Last\<close>
  returns the top without removing it, or the root page when the queue is empty;
  \<open>Empty\<close> tells whether no element remains.
\<close>

definition Enqueue :: "PageTrack \<Rightarrow> AppView \<Rightarrow> AppView" where
  "Enqueue track app = app\<lparr>drawQueue := drawQueue app @ [track]\<rparr>"

definition Dequeue :: "AppView \<Rightarrow> AppView" where
  "Dequeue app = app\<lparr>drawQueue := butlast (drawQueue app)\<rparr>"

definition Last :: "AppView \<Rightarrow> PageTrack" where
  "Last app =
     (case drawQueue app of
        [] \<Rightarrow> \<lparr>PageName = RootPage, Primitive = view_primitive (lookup_view app RootPage)\<rparr>
      | _ \<Rightarrow> last (drawQueue app))"

definition Empty :: "AppView \<Rightarrow> bool" where
  "Empty app = (drawQueue app = [])"

section \<open>The page controller\<close>

definition SetFocus :: "primitive \<Rightarrow> AppView \<Rightarrow> AppView" where
  "SetFocus p app = app\<lparr>focus := Some p\<rparr>"

text \<open>
  \<open>SwitchPage\<close>, first the part under the lock. The send on \<open>switchPage\<close> is made by
  the caller itself: it goes through when the buffer has room, and blocks otherwise (on
  a nil channel for ever, on a full one until the watch task receives).
\<close>

definition switch_locked :: "string \<Rightarrow> AppView \<Rightarrow> fault + AppView" where
  "switch_locked page app =
     (if currentPage app \<noteq> page then
        (case switchPage app of
           None \<Rightarrow> Inl Blocks
         | Some c \<Rightarrow>
             if buf c < cap c
             then Inr (app\<lparr>currentPage := page, switchPage := Some (c\<lparr>buf := buf c + 1\<rparr>)\<rparr>)
             else Inl Blocks)
      else Inr app)"

definition SwitchPage :: "string \<Rightarrow> primitive \<Rightarrow> AppView \<Rightarrow> fault + AppView" where
  "SwitchPage page p app =
     (case switch_locked page app of
        Inl e \<Rightarrow> Inl e
      | Inr app1 \<Rightarrow>
          Inr (SetFocus p
                (Enqueue \<lparr>PageName = page, Primitive = p\<rparr>
                  (app1\<lparr>content := AddAndSwitchToPage page p (content app1)\<rparr>))))"

definition CurrentPage :: "AppView \<Rightarrow> primitive" where
  "CurrentPage app = view_primitive (lookup_view app (currentPage app))"

definition LastPage :: "AppView \<Rightarrow> AppView" where
  "LastPage app =
     (let app1 = Dequeue app;
          page = Last app1;
          app2 = app1\<lparr>content := AddAndSwitchToPage (PageName page) (Primitive page) (content app1)\<rparr>
      in SetFocus (Primitive page) app2)"

definition menuDecor :: "string \<Rightarrow> primitive \<Rightarrow> AppView \<Rightarrow> fault + AppView" where
  "menuDecor page p app =
     SwitchPage page
       (PagesP (AddPage ''menu'' (center MenuP 30 20) True (AddPage page p True []))) app"

section \<open>Table views\<close>

text \<open>
  The table of the toolkit: \<open>SetCell\<close> grows the rows and the row as needed, with
  empty cells in between. A cell is its text.
\<close>

definition SetCell :: "nat \<Rightarrow> nat \<Rightarrow> string \<Rightarrow> string list list \<Rightarrow> string list list" where
  "SetCell r c v cs =
     (let cs1 = (if length cs \<le> r then cs @ replicate (r - length cs + 1) [] else cs);
          rw = cs1 ! r;
          rw1 = (if length rw \<le> c then rw @ replicate (c - length rw + 1) [] else rw)
      in cs1[r := rw1[c := v]])"

text \<open>\<open>strings.Contains\<close>: the second string occurs in the first.\<close>

fun Contains :: "string \<Rightarrow> string \<Rightarrow> bool" where
  "Contains [] sub = (sub = [])"
| "Contains (c # cs) sub = (take (length sub) (c # cs) = sub \<or> Contains cs sub)"

text \<open>The loops of \<open>draw\<close>: the header cells, the cells of one row, the rows.\<close>

fun addHeaderCells :: "nat \<Rightarrow> string list \<Rightarrow> string list list \<Rightarrow> string list list" where
  "addHeaderCells col [] cs = cs"
| "addHeaderCells col (name # names) cs =
     addHeaderCells (Suc col) names (SetCell 0 col (''[white]'' @ name) cs)"

fun addBodyCells :: "nat \<Rightarrow> nat \<Rightarrow> string list \<Rightarrow> string list list \<Rightarrow> string list list" where
  "addBodyCells r col [] cs = cs"
| "addBodyCells r col (v # vs) cs = addBodyCells r (Suc col) vs (SetCell (r + 1) col v cs)"

fun addRows :: "string \<Rightarrow> nat \<Rightarrow> string list list \<Rightarrow> string list list \<Rightarrow> string list list" where
  "addRows srch r [] cs = cs"
| "addRows srch r (rw # rws) cs =
     (if (case rw of [] \<Rightarrow> False | v # _ \<Rightarrow> v = []) then addRows srch r rws cs
      else if srch \<noteq> [] \<and> \<not> Contains (concat rw) srch then addRows srch r rws cs
      else addRows srch (Suc r) rws (addBodyCells r 0 rw cs))"

definition set_view :: "nat \<Rightarrow> tableView \<Rightarrow> AppView \<Rightarrow> AppView" where
  "set_view t v app = app\<lparr>views := (views app)[t := v]\<rparr>"

definition draw :: "DataSource \<Rightarrow> nat \<Rightarrow> AppView \<Rightarrow> AppView" where
  "draw ds t app =
     (let v = views app ! t;
          cs = addRows (search v) 0 (Data ds) (addHeaderCells 0 (Header ds) []);
          app1 = set_view t (v\<lparr>cells := cs, search := []\<rparr>) app
      in app1\<lparr>draws := draws app1 + 1\<rparr>)"

text \<open>
  \<open>refresh\<close> returns the error of the data source, if any; a nil data source panics.
\<close>

definition refresh :: "fetch \<Rightarrow> nat \<Rightarrow> AppView \<Rightarrow> fault + (string option \<times> AppView)" where
  "refresh f t app =
     (case dataSource (views app ! t) of
        None \<Rightarrow> Inl Panic
      | Some ds \<Rightarrow>
          (case ds_Refresh f ds of
             (Some err, ds1) \<Rightarrow>
               Inr (Some err, set_view t ((views app ! t)\<lparr>dataSource := Some ds1\<rparr>) app)
           | (None, ds1) \<Rightarrow>
               Inr (None, draw ds1 t (set_view t ((views app ! t)\<lparr>dataSource := Some ds1\<rparr>) app))))"

text \<open>
  \<open>UpdateStatus\<close> shows the status bar over the current page and starts the goroutine
  that switches to the root page a second later; that goroutine is counted, not run
  (\<open>SwitchToRootPage\<close> of the application is not among the sources).
\<close>

definition UpdateStatus :: "string \<Rightarrow> bool \<Rightarrow> nat \<Rightarrow> AppView \<Rightarrow> fault + AppView" where
  "UpdateStatus status isError t app =
     (let newpage0 =
            (case lookup_view app (currentPage app) of
               Some _ \<Rightarrow> AddPage ''status'' (currentPrimitive app) True []
             | None \<Rightarrow> []);
          newpage = AddPage ''dialog'' (center (StatusBar status isError) 100 5) True newpage0
      in case SwitchPage (currentPage app) (PagesP newpage) app of
           Inl e \<Rightarrow> Inl e
         | Inr app1 \<Rightarrow> Inr (app1\<lparr>timers := timers app1 + 1\<rparr>))"

text \<open>
  \<open>init\<close>, on the view at address \<open>t\<close>: the channel is the one \<open>syncs\<close> has for
  the kind, or a new one of capacity 0; the selection is restored from \<open>pageRows\<close>.
\<close>

definition Select :: "nat \<Rightarrow> int \<Rightarrow> int \<Rightarrow> AppView \<Rightarrow> AppView" where
  "Select t r c app = set_view t ((views app ! t)\<lparr>selected := \<lparr>row = r, column = c\<rparr>\<rparr>) app"

definition init :: "nat \<Rightarrow> ResourceKind \<Rightarrow> DataSource option \<Rightarrow> AppView \<Rightarrow> AppView" where
  "init t resource dataFeeder app =
     (let v1 = (views app ! t)\<lparr>resourceKind := resource, dataSource := dataFeeder,
                  sync := syncs app (Kind resource), title := Title resource\<rparr>;
          app1 = set_view t v1 app;
          app2 = (case sync v1 of
                    None \<Rightarrow>
                      (set_view t (v1\<lparr>sync := Some (length (chans app1))\<rparr>) app1)
                        \<lparr>chans := chans app1 @ [make_chan 0]\<rparr>
                  | Some _ \<Rightarrow> app1)
      in case pageRows app2 (Kind resource) of
           Some p \<Rightarrow> Select t (row p) (column p) app2
         | None \<Rightarrow> app2)"

text \<open>
  The function \<open>init\<close> registers for the selection changes of the table: the toolkit
  calls it with the new row and column.
\<close>

definition selectionChanged :: "nat \<Rightarrow> int \<Rightarrow> int \<Rightarrow> AppView \<Rightarrow> AppView" where
  "selectionChanged t r c app =
     app\<lparr>pageRows := (pageRows app)(Kind (resourceKind (views app ! t)) \<mapsto> \<lparr>row = r, column = c\<rparr>)\<rparr>"

text \<open>A selection change by the user: the table takes it and calls the function.\<close>

definition user_select :: "nat \<Rightarrow> int \<Rightarrow> int \<Rightarrow> AppView \<Rightarrow> AppView" where
  "user_select t r c app = selectionChanged t r c (Select t r c app)"

text \<open>
  The declarations of \<open>ViewMap\<close> and \<open>PageNav\<close> are not among the sources: they are
  parameters. A kind that \<open>ViewMap\<close> lacks gives the zero value.
\<close>

record ViewDef =
  vKind :: ResourceKind
  Feeder :: "DataSource option"

definition zero_ViewDef :: ViewDef where
  "zero_ViewDef = \<lparr>vKind = \<lparr>Kind = [], Title = []\<rparr>, Feeder = None\<rparr>"

definition zero_tableView :: tableView where
  "zero_tableView =
     \<lparr>resourceKind = \<lparr>Kind = [], Title = []\<rparr>, dataSource = None, sync = None, search = [],
      selected = \<lparr>row = 0, column = 0\<rparr>, cells = [], title = []\<rparr>"

definition NewTableViewWithArgs ::
  "ResourceKind \<Rightarrow> DataSource option \<Rightarrow> fetch \<Rightarrow> AppView \<Rightarrow> fault + (nat \<times> AppView)" where
  "NewTableViewWithArgs kind feeder f app =
     (let t = length (views app);
          app1 = init t kind feeder (app\<lparr>views := views app @ [zero_tableView]\<rparr>)
      in case refresh f t app1 of
           Inl e \<Rightarrow> Inl e
         | Inr (Some err, app2) \<Rightarrow>
             (case UpdateStatus err True t app2 of
                Inl e \<Rightarrow> Inl e
              | Inr app3 \<Rightarrow> Inr (t, app3))
         | Inr (None, app2) \<Rightarrow> Inr (t, app2))"

definition NewTableView ::
  "(string \<rightharpoonup> ViewDef) \<Rightarrow> fetch \<Rightarrow> string \<Rightarrow> AppView \<Rightarrow> fault + (nat \<times> AppView)" where
  "NewTableView ViewMap f kind app =
     (let v = (case ViewMap kind of None \<Rightarrow> zero_ViewDef | Some d \<Rightarrow> d)
      in NewTableViewWithArgs (vKind v) (Feeder v) f app)"

section \<open>The refresh loop\<close>

text \<open>
  \<open>Refresh\<close> starts a goroutine whose only action is the send on the channel of the
  view; on a nil channel that goroutine is suspended for ever and nothing changes.
\<close>

definition Refresh :: "nat \<Rightarrow> AppView \<Rightarrow> AppView" where
  "Refresh t app =
     (case sync (views app ! t) of
        None \<Rightarrow> app
      | Some c \<Rightarrow> app\<lparr>chans := (chans app)[c := go_send (chans app ! c)]\<rparr>)"

definition sync_ready :: "nat \<Rightarrow> AppView \<Rightarrow> bool" where
  "sync_ready t app =
     (case sync (views app ! t) of None \<Rightarrow> False | Some c \<Rightarrow> chan_ready (chans app ! c))"

definition ctx_done :: "nat \<Rightarrow> AppView \<Rightarrow> bool" where
  "ctx_done k app = (contexts app ! k)"

text \<open>The case of \<open>run\<close> that receives from the channel of the view.\<close>

definition run_sync :: "fetch \<Rightarrow> nat \<Rightarrow> AppView \<Rightarrow> fault + AppView" where
  "run_sync f t app =
     (let app0 = (case sync (views app ! t) of
                    None \<Rightarrow> app
                  | Some c \<Rightarrow> app\<lparr>chans := (chans app)[c := chan_recv (chans app ! c)]\<rparr>)
      in case refresh f t app0 of
           Inl e \<Rightarrow> Inl e
         | Inr (err, app1) \<Rightarrow>
             (case (case err of
                      Some msg \<Rightarrow> UpdateStatus msg True t app1
                    | None \<Rightarrow> Inr app1) of
                Inl e \<Rightarrow> Inl e
              | Inr app2 \<Rightarrow> SwitchPage (currentPage app2) (TableP t) app2))"

text \<open>
  How a loop stands at the end of what is observed of it: it has returned, it is
  suspended in its select with no case ready, it is still running, or it has stopped
  with a fault.
\<close>

datatype outcome = Returned | Waiting | Running | Faulted fault

text \<open>
  \<open>run\<close>. The select takes the only ready case; when both are ready the runtime
  chooses, and the re-fetch of the data source has a result the program does not decide.
  Both are inputs: one pair for each turn of the loop that has a choice to make or a
  re-fetch to do, the first component telling whether the cancellation is preferred.
\<close>

fun run :: "(bool \<times> fetch) list \<Rightarrow> nat \<Rightarrow> nat \<Rightarrow> AppView \<Rightarrow> outcome \<times> AppView" where
  "run [] k t app =
     (if sync_ready t app then (Running, app)
      else if ctx_done k app then (Returned, app)
      else (Waiting, app))"
| "run (e # es) k t app =
     (if sync_ready t app then
        (if ctx_done k app \<and> fst e then (Returned, app)
         else (case run_sync (snd e) t app of
                 Inl x \<Rightarrow> (Faulted x, app)
               | Inr app1 \<Rightarrow> run es k t app1))
      else if ctx_done k app then (Returned, app)
      else (Waiting, app))"

section \<open>Pages of the table views\<close>

definition InsertDialog :: "string \<Rightarrow> primitive \<Rightarrow> primitive \<Rightarrow> AppView \<Rightarrow> fault + AppView" where
  "InsertDialog name page dialog app =
     (let newpage = AddPage ''dialog'' (center dialog 40 15) True (AddPage name page True [])
      in case SwitchPage (currentPage app) (PagesP newpage) app of
           Inl e \<Rightarrow> Inl e
         | Inr app1 \<Rightarrow> Inr (SetFocus dialog app1))"

definition GetCurrentPrimitive :: "AppView \<Rightarrow> primitive" where
  "GetCurrentPrimitive app =
     (if Empty app then view_primitive (lookup_view app RootPage) else Primitive (Last app))"

definition BackPage :: "AppView \<Rightarrow> AppView" where
  "BackPage app = LastPage app"

definition UpdateWithSearch :: "string \<Rightarrow> nat \<Rightarrow> AppView \<Rightarrow> AppView" where
  "UpdateWithSearch srch t app = set_view t ((views app ! t)\<lparr>search := srch\<rparr>) app"

definition ShowMenu :: "AppView \<Rightarrow> fault + AppView" where
  "ShowMenu app =
     (if \<not> showMenu app then
        (let newpage = AddPage ''menu-decor'' (center MenuP 60 15) True
                         (AddPage ''menu'' (CurrentPage app) True [])
         in case SwitchPage (currentPage app) (PagesP newpage) app of
              Inl e \<Rightarrow> Inl e
            | Inr app1 \<Rightarrow> Inr ((SetFocus MenuP app1)\<lparr>showMenu := True\<rparr>))
      else Inr app)"

text \<open>\<open>Navigate\<close>: a write to a nil map of table views panics.\<close>

definition Navigate ::
  "(char \<rightharpoonup> string) \<Rightarrow> (string \<rightharpoonup> ViewDef) \<Rightarrow> fetch \<Rightarrow> char \<Rightarrow> AppView \<Rightarrow> fault + AppView" where
  "Navigate PageNav ViewMap f r app =
     (case PageNav r of
        None \<Rightarrow> Inr app
      | Some kind \<Rightarrow>
          (case (case lookup_view app kind of
                   Some _ \<Rightarrow> Inr app
                 | None \<Rightarrow>
                     (case NewTableView ViewMap f kind app of
                        Inl e \<Rightarrow> Inl e
                      | Inr (t, app1) \<Rightarrow>
                          (case tableViews app1 of
                             None \<Rightarrow> Inl Panic
                           | Some m \<Rightarrow> Inr (app1\<lparr>tableViews := Some (m(kind \<mapsto> t))\<rparr>)))) of
             Inl e \<Rightarrow> Inl e
           | Inr app2 \<Rightarrow> SwitchPage kind (view_primitive (lookup_view app2 kind)) app2))"

section \<open>The application\<close>

definition NewAppView :: AppView where
  "NewAppView =
     \<lparr>contexts = [], ctx = None, k8sVersion = [], content = [], focus = None, drawQueue = [],
      tableViews = None, pageRows = Map.empty, showMenu = False, currentPage = [],
      currentPrimitive = NilP, switchPage = None, syncs = Map.empty, views = [], chans = [],
      draws = 0, timers = 0\<rparr>"

text \<open>
  \<open>Init\<close>. The version of the cluster is asked from outside: the error or the version
  is an input, and so is the result of the first re-fetch of the root page. The watch
  task that \<open>Init\<close> starts is \<open>watch\<close> below.
\<close>

definition Init :: "string + string \<Rightarrow> (string \<rightharpoonup> ViewDef) \<Rightarrow> fetch \<Rightarrow> AppView \<Rightarrow> fault + AppView" where
  "Init k8s ViewMap f app =
     (case k8s of
        Inl err \<Rightarrow> Inl (Error err)
      | Inr ver \<Rightarrow>
          (let app1 = app\<lparr>contexts := contexts app @ [False], ctx := Some (length (contexts app)),
                          k8sVersion := ver, switchPage := Some (make_chan 1)\<rparr>
           in case NewTableView ViewMap f RootPage app1 of
                Inl e \<Rightarrow> Inl e
              | Inr (t, app2) \<Rightarrow>
                  (let app3 = app2\<lparr>tableViews := Some [RootPage \<mapsto> t]\<rparr>
                   in SwitchPage RootPage (view_primitive (lookup_view app3 RootPage)) app3)))"

text \<open>
  One turn of the loop of \<open>watch\<close>: it waits for a signal on \<open>switchPage\<close>, cancels
  the context of the application and runs the loop of the current page with that same
  context, in its own task. A nil cancel function and a nil table view panic.
\<close>

definition watch :: "(bool \<times> fetch) list \<Rightarrow> AppView \<Rightarrow> outcome \<times> AppView" where
  "watch es app =
     (case switchPage app of
        None \<Rightarrow> (Waiting, app)
      | Some c \<Rightarrow>
          if \<not> chan_ready c then (Waiting, app)
          else
            (let app1 = app\<lparr>switchPage := Some (chan_recv c)\<rparr>
             in case ctx app1 of
                  None \<Rightarrow> (Faulted Panic, app1)
                | Some k \<Rightarrow>
                    (let app2 = app1\<lparr>contexts := (contexts app1)[k := True]\<rparr>
                     in case lookup_view app2 (currentPage app2) of
                          None \<Rightarrow> (Faulted Panic, app2)
                        | Some t \<Rightarrow> run es k t app2)))"

section \<open>Sequences of calls\<close>

text \<open>
  The calls the tasks of the program make, one after the other. A turn of the watch task
  goes on to the next call when the loop it has run has returned.
\<close>

datatype call =
    CSwitchPage string primitive
  | CLastPage
  | CWatch "(bool \<times> fetch) list"
  | CNavigate "char \<rightharpoonup> string" "string \<rightharpoonup> ViewDef" fetch char
  | CRefresh nat
  | CSelect nat int int
  | CShowMenu

fun perform :: "call list \<Rightarrow> AppView \<Rightarrow> fault + AppView" where
  "perform [] app = Inr app"
| "perform (CSwitchPage page p # cs) app =
     (case SwitchPage page p app of Inl e \<Rightarrow> Inl e | Inr app1 \<Rightarrow> perform cs app1)"
| "perform (CLastPage # cs) app = perform cs (LastPage app)"
| "perform (CWatch es # cs) app =
     (case watch es app of
        (Returned, app1) \<Rightarrow> perform cs app1
      | (Faulted e, app1) \<Rightarrow> Inl e
      | (Waiting, app1) \<Rightarrow> Inl Blocks
      | (Running, app1) \<Rightarrow> Inl Blocks)"
| "perform (CNavigate PageNav ViewMap f r # cs) app =
     (case Navigate PageNav ViewMap f r app of Inl e \<Rightarrow> Inl e | Inr app1 \<Rightarrow> perform cs app1)"
| "perform (CRefresh t # cs) app = perform cs (Refresh t app)"
| "perform (CSelect t r c # cs) app = perform cs (user_select t r c app)"
| "perform (CShowMenu # cs) app =
     (case ShowMenu app of Inl e \<Rightarrow> Inl e | Inr app1 \<Rightarrow> perform cs app1)"

text \<open>The page the content shows, and what a sequence of calls leaves to be seen.\<close>

definition shown :: "AppView \<Rightarrow> string option" where
  "shown app = map_option fst (GetFrontPage (content app))"

definition observe :: "(AppView \<Rightarrow> 'a) \<Rightarrow> fault + AppView \<Rightarrow> fault + 'a" where
  "observe f r = (case r of Inl e \<Rightarrow> Inl e | Inr app \<Rightarrow> Inr (f app))"

subsection \<open>A session\<close>

definition example_ViewMap :: "string \<rightharpoonup> ViewDef" where
  "example_ViewMap =
     [''root'' \<mapsto> \<lparr>vKind = \<lparr>Kind = ''root'', Title = ''Resources''\<rparr>,
                  Feeder = Some \<lparr>Header = [], Data = []\<rparr>\<rparr>,
      ''pods'' \<mapsto> \<lparr>vKind = \<lparr>Kind = ''pods'', Title = ''Pods''\<rparr>,
                  Feeder = Some \<lparr>Header = [], Data = []\<rparr>\<rparr>,
      ''deployments'' \<mapsto> \<lparr>vKind = \<lparr>Kind = ''deployments'', Title = ''Deployments''\<rparr>,
                  Feeder = Some \<lparr>Header = [], Data = []\<rparr>\<rparr>]"

definition example_PageNav :: "char \<rightharpoonup> string" where
  "example_PageNav = [CHR ''1'' \<mapsto> ''pods'', CHR ''2'' \<mapsto> ''deployments'']"

definition example_fetch :: fetch where
  "example_fetch = Inr ([''NAME'', ''AGE''], [[''a'', ''1d''], [''b'', ''2d'']])"

text \<open>The application after \<open>Init\<close>, and then the given calls.\<close>

definition session :: "call list \<Rightarrow> fault + AppView" where
  "session cs =
     (case Init (Inr ''v1.14'') example_ViewMap example_fetch NewAppView of
        Inl e \<Rightarrow> Inl e
      | Inr app \<Rightarrow> perform cs app)"

definition nav :: "char \<Rightarrow> call" where
  "nav r = CNavigate example_PageNav example_ViewMap example_fetch r"

text \<open>
  The application a call has returned, where the call is shown to return (\<open>returns\<close>).
\<close>

definition returns :: "fault + AppView \<Rightarrow> bool" where
  "returns r = (case r of Inl e \<Rightarrow> False | Inr app \<Rightarrow> True)"

definition result :: "fault + AppView \<Rightarrow> AppView" where
  "result r = (case r of Inl e \<Rightarrow> NewAppView | Inr app \<Rightarrow> app)"

text \<open>The application on the root page, on the pods page and on the deployments page.\<close>

definition on_root :: AppView where
  "on_root = result (session [CWatch []])"

definition on_pods :: AppView where
  "on_pods = result (session [CWatch [], nav (CHR ''1''), CWatch []])"

definition on_deployments :: AppView where
  "on_deployments =
     result (session [CWatch [], nav (CHR ''1''), CWatch [], nav (CHR ''2''), CWatch []])"

text \<open>
  Calls among which every selection change of the user is made on a table view that
  exists and is of another kind than the given one, looked up when the change is made.
  Switches, steps back, turns of the watch task, refreshes and menu overlays are free.
\<close>

fun elsewhere :: "string \<Rightarrow> call list \<Rightarrow> AppView \<Rightarrow> bool" where
  "elsewhere k [] app = True"
| "elsewhere k (CSelect t r c # cs) app =
     (t < length (views app) \<and> Kind (resourceKind (views app ! t)) \<noteq> k \<and>
      elsewhere k cs (user_select t r c app))"
| "elsewhere k (x # cs) app =
     (case perform [x] app of Inl e \<Rightarrow> True | Inr app1 \<Rightarrow> elsewhere k cs app1)"

text \<open>
  What the calls other than selection changes keep: the position memory, and of every
  table view that exists its kind and the selection of its table.
\<close>

definition keeps :: "AppView \<Rightarrow> AppView \<Rightarrow> bool" where
  "keeps app app1 =
     (pageRows app1 = pageRows app \<and> length (views app) \<le> length (views app1) \<and>
      (\<forall>u < length (views app).
         selected (views app1 ! u) = selected (views app ! u) \<and>
         resourceKind (views app1 ! u) = resourceKind (views app ! u)))"

text \<open>
  What is kept for one kind when selections change on views of other kinds: the position
  of that kind, the kind of every table view that exists, and the selection of the
  views of that kind.
\<close>

definition keeps_for :: "string \<Rightarrow> AppView \<Rightarrow> AppView \<Rightarrow> bool" where
  "keeps_for k app app1 =
     (pageRows app1 k = pageRows app k \<and> length (views app) \<le> length (views app1) \<and>
      (\<forall>u < length (views app).
         resourceKind (views app1 ! u) = resourceKind (views app ! u) \<and>
         (Kind (resourceKind (views app ! u)) = k \<longrightarrow>
            selected (views app1 ! u) = selected (views app ! u))))"

section \<open>Facts about the page controller\<close>

lemma GetFrontPage_AddAndSwitchToPage:
  "GetFrontPage (AddAndSwitchToPage name item ps) = Some (name, item)"
  by (simp add: GetFrontPage_def AddAndSwitchToPage_def SwitchToPage_def AddPage_def)

lemma switch_locked_same: "switch_locked (currentPage app) app = Inr app"
  by (simp add: switch_locked_def)

lemma SwitchPage_same:
  "SwitchPage (currentPage app) p app =
     Inr (SetFocus p (Enqueue \<lparr>PageName = currentPage app, Primitive = p\<rparr>
            (app\<lparr>content := AddAndSwitchToPage (currentPage app) p (content app)\<rparr>)))"
  by (simp add: SwitchPage_def switch_locked_same)

lemma SwitchPage_Inr_fields:
  assumes "SwitchPage page p app = Inr app1"
  shows "currentPage app1 = page"
    and "drawQueue app1 = drawQueue app @ [\<lparr>PageName = page, Primitive = p\<rparr>]"
    and "content app1 = AddAndSwitchToPage page p (content app)"
    and "focus app1 = Some p"
    and "tableViews app1 = tableViews app"
    and "pageRows app1 = pageRows app"
    and "views app1 = views app"
    and "chans app1 = chans app"
    and "contexts app1 = contexts app"
    and "ctx app1 = ctx app"
    and "draws app1 = draws app"
    and "timers app1 = timers app"
    and "showMenu app1 = showMenu app"
    and "syncs app1 = syncs app"
    and "currentPrimitive app1 = currentPrimitive app"
  using assms
  by (auto simp: SwitchPage_def switch_locked_def SetFocus_def Enqueue_def
      split: if_splits option.splits sum.splits)

lemma SwitchPage_same_signal:
  assumes "SwitchPage (currentPage app) p app = Inr app1"
  shows "switchPage app1 = switchPage app"
  using assms by (simp add: SwitchPage_same SetFocus_def Enqueue_def) auto

lemma LastPage_fields:
  "currentPage (LastPage app) = currentPage app"
  "drawQueue (LastPage app) = butlast (drawQueue app)"
  "tableViews (LastPage app) = tableViews app"
  "pageRows (LastPage app) = pageRows app"
  "views (LastPage app) = views app"
  "chans (LastPage app) = chans app"
  "contexts (LastPage app) = contexts app"
  "switchPage (LastPage app) = switchPage app"
  "showMenu (LastPage app) = showMenu app"
  "content (LastPage app) =
     AddAndSwitchToPage (PageName (Last (Dequeue app))) (Primitive (Last (Dequeue app)))
       (content app)"
  "focus (LastPage app) = Some (Primitive (Last (Dequeue app)))"
  by (simp_all add: LastPage_def Let_def SetFocus_def Dequeue_def)

lemma Last_cong:
  "drawQueue a = drawQueue b \<Longrightarrow> tableViews a = tableViews b \<Longrightarrow> Last a = Last b"
  by (simp add: Last_def lookup_view_def split: list.splits)

lemma shown_LastPage: "shown (LastPage app) = Some (PageName (Last (Dequeue app)))"
  by (simp add: shown_def LastPage_fields GetFrontPage_AddAndSwitchToPage)

lemma CurrentPage_cong:
  "currentPage a = currentPage b \<Longrightarrow> tableViews a = tableViews b \<Longrightarrow> CurrentPage a = CurrentPage b"
  by (simp add: CurrentPage_def lookup_view_def)

lemma returns_result: "returns r \<Longrightarrow> r = Inr (result r)"
  by (simp add: returns_def result_def split: sum.splits)

lemma sessions_return:
  "session [CWatch []] = Inr on_root"
  "session [CWatch [], nav (CHR ''1''), CWatch []] = Inr on_pods"
  "session [CWatch [], nav (CHR ''1''), CWatch [], nav (CHR ''2''), CWatch []] = Inr on_deployments"
proof -
  have "returns (session [CWatch []])"
    by code_simp
  then show "session [CWatch []] = Inr on_root"
    unfolding on_root_def by (rule returns_result)
  have "returns (session [CWatch [], nav (CHR ''1''), CWatch []])"
    by code_simp
  then show "session [CWatch [], nav (CHR ''1''), CWatch []] = Inr on_pods"
    unfolding on_pods_def by (rule returns_result)
  have "returns (session [CWatch [], nav (CHR ''1''), CWatch [], nav (CHR ''2''), CWatch []])"
    by code_simp
  then show "session [CWatch [], nav (CHR ''1''), CWatch [], nav (CHR ''2''), CWatch []] =
      Inr on_deployments"
    unfolding on_deployments_def by (rule returns_result)
qed

section \<open>Back navigation and the current page pointer\<close>

text \<open>
  Claim C10. \<open>LastPage\<close> never modifies the current page pointer: after every call the
  string \<open>currentPage\<close> is what it was before, and so is what \<open>CurrentPage\<close> returns,
  while the page shown and the focus are those of the entry now on top of the draw
  queue. So whenever a switch to a registered page \<open>page\<close> with view \<open>t\<close> has been
  made over a non-empty queue, after \<open>LastPage\<close> the older entry is shown and
  \<open>CurrentPage\<close> still returns the view \<open>t\<close> of the page just left.
\<close>

theorem LastPage_keeps_currentPage:
  "currentPage (LastPage app) = currentPage app \<and>
   CurrentPage (LastPage app) = CurrentPage app \<and>
   shown (LastPage app) = Some (PageName (Last (Dequeue app))) \<and>
   focus (LastPage app) = Some (Primitive (Last (Dequeue app))) \<and>
   (SwitchPage page (TableP t) app = Inr app1 \<longrightarrow> lookup_view app page = Some t \<longrightarrow>
      drawQueue app \<noteq> [] \<longrightarrow>
        shown (LastPage app1) = Some (PageName (last (drawQueue app))) \<and>
        currentPage (LastPage app1) = page \<and>
        CurrentPage (LastPage app1) = TableP t)"
proof -
  have a: "currentPage (LastPage app) = currentPage app"
    by (simp add: LastPage_fields)
  have b: "CurrentPage (LastPage app) = CurrentPage app"
    by (rule CurrentPage_cong) (simp_all add: LastPage_fields)
  have c: "shown (LastPage app1) = Some (PageName (last (drawQueue app)))"
    "currentPage (LastPage app1) = page" "CurrentPage (LastPage app1) = TableP t"
    if sw: "SwitchPage page (TableP t) app = Inr app1" and reg: "lookup_view app page = Some t"
      and ne: "drawQueue app \<noteq> []"
  proof -
    have q: "drawQueue (Dequeue app1) = drawQueue app"
      by (simp add: Dequeue_def SwitchPage_Inr_fields(2)[OF sw])
    show "shown (LastPage app1) = Some (PageName (last (drawQueue app)))"
      using ne q by (simp add: shown_LastPage Last_def split: list.splits)
    show "currentPage (LastPage app1) = page"
      by (simp add: LastPage_fields SwitchPage_Inr_fields(1)[OF sw])
    show "CurrentPage (LastPage app1) = TableP t"
      using reg
      by (simp add: CurrentPage_def lookup_view_def view_primitive_def LastPage_fields
          SwitchPage_Inr_fields(1,5)[OF sw])
  qed
  show ?thesis
    using a b c by (simp add: shown_LastPage LastPage_fields)
qed

theorem LastPage_keeps_currentPage_witness:
  "SwitchPage ''pods'' (TableP 1) on_deployments =
     Inr (result (SwitchPage ''pods'' (TableP 1) on_deployments)) \<and>
   lookup_view on_deployments ''pods'' = Some 1 \<and>
   drawQueue on_deployments \<noteq> [] \<and>
   shown (LastPage (result (SwitchPage ''pods'' (TableP 1) on_deployments))) = Some ''deployments'' \<and>
   currentPage (LastPage (result (SwitchPage ''pods'' (TableP 1) on_deployments))) = ''pods'' \<and>
   CurrentPage (LastPage (result (SwitchPage ''pods'' (TableP 1) on_deployments))) = TableP 1"
proof -
  have r: "returns (SwitchPage ''pods'' (TableP 1) on_deployments)"
    by code_simp
  have sw: "SwitchPage ''pods'' (TableP 1) on_deployments =
      Inr (result (SwitchPage ''pods'' (TableP 1) on_deployments))"
    by (rule returns_result [OF r])
  have reg: "lookup_view on_deployments ''pods'' = Some 1"
    by code_simp
  have ne: "drawQueue on_deployments \<noteq> []"
    by code_simp
  have top: "PageName (last (drawQueue on_deployments)) = ''deployments''"
    by code_simp
  show ?thesis
    using LastPage_keeps_currentPage [of on_deployments "''pods''" 1
        "result (SwitchPage ''pods'' (TableP 1) on_deployments)"] sw reg ne top
    by simp
qed

section \<open>Switching to the page that is already current\<close>

text \<open>
  Claim C4, as amended. For every call \<open>SwitchPage X v\<close> made while \<open>X\<close> is already
  the current page: the call returns, no cancellation and restart signal is emitted (the
  channel \<open>switchPage\<close> and the contexts are as before, the pointer stays \<open>X\<close>), and the
  entry \<open>{X, v}\<close> is appended to the draw queue, where it is one more history entry of
  \<open>X\<close>: one \<open>LastPage\<close> removes that entry only, and leaves the queue as it was before
  the call and the entry that was on top before the call shown. The signal is emitted
  when the name differs, once: a call with another name that returns has put exactly one
  element into the buffer of \<open>switchPage\<close>.
\<close>

theorem SwitchPage_current_page:
  "(currentPage app = X \<longrightarrow>
      (\<exists>app1. SwitchPage X v app = Inr app1 \<and>
         switchPage app1 = switchPage app \<and> contexts app1 = contexts app \<and>
         currentPage app1 = X \<and>
         drawQueue app1 = drawQueue app @ [\<lparr>PageName = X, Primitive = v\<rparr>] \<and>
         shown app1 = Some X \<and> focus app1 = Some v \<and>
         drawQueue (LastPage app1) = drawQueue app \<and>
         shown (LastPage app1) = Some (PageName (Last app)))) \<and>
   (SwitchPage page w app = Inr app2 \<longrightarrow> page \<noteq> currentPage app \<longrightarrow>
      (\<exists>c. switchPage app = Some c \<and> buf c < cap c \<and>
         switchPage app2 = Some (c\<lparr>buf := buf c + 1\<rparr>)))"
proof -
  have same: "\<exists>app1. SwitchPage X v app = Inr app1 \<and>
         switchPage app1 = switchPage app \<and> contexts app1 = contexts app \<and>
         currentPage app1 = X \<and>
         drawQueue app1 = drawQueue app @ [\<lparr>PageName = X, Primitive = v\<rparr>] \<and>
         shown app1 = Some X \<and> focus app1 = Some v \<and>
         drawQueue (LastPage app1) = drawQueue app \<and>
         shown (LastPage app1) = Some (PageName (Last app))"
    if cur: "currentPage app = X"
  proof -
    obtain app1 where sw: "SwitchPage X v app = Inr app1"
      using cur SwitchPage_same [of app v] by simp
    have sw': "SwitchPage (currentPage app) v app = Inr app1"
      using sw cur by simp
    have q: "drawQueue (Dequeue app1) = drawQueue app"
      by (simp add: Dequeue_def SwitchPage_Inr_fields(2) [OF sw])
    have tv: "tableViews (Dequeue app1) = tableViews app"
      by (simp add: Dequeue_def SwitchPage_Inr_fields(5) [OF sw])
    have l: "Last (Dequeue app1) = Last app"
      by (rule Last_cong [OF q tv])
    have "shown app1 = Some X"
      by (simp add: shown_def SwitchPage_Inr_fields(3) [OF sw] GetFrontPage_AddAndSwitchToPage)
    moreover have "drawQueue (LastPage app1) = drawQueue app"
      by (simp add: LastPage_fields SwitchPage_Inr_fields(2) [OF sw])
    moreover have "shown (LastPage app1) = Some (PageName (Last app))"
      by (simp add: shown_LastPage l)
    ultimately show ?thesis
      using sw SwitchPage_same_signal [OF sw'] SwitchPage_Inr_fields(1,2,4,9) [OF sw]
      by simp
  qed
  have other: "\<exists>c. switchPage app = Some c \<and> buf c < cap c \<and>
         switchPage app2 = Some (c\<lparr>buf := buf c + 1\<rparr>)"
    if "SwitchPage page w app = Inr app2" "page \<noteq> currentPage app"
    using that
    by (auto simp: SwitchPage_def switch_locked_def SetFocus_def Enqueue_def
        split: if_splits option.splits sum.splits)
  show ?thesis
    using same other by blast
qed

theorem SwitchPage_current_page_witness:
  "currentPage on_pods = ''pods'' \<and>
   SwitchPage ''pods'' (Widget 7) on_pods = Inr (result (SwitchPage ''pods'' (Widget 7) on_pods)) \<and>
   switchPage (result (SwitchPage ''pods'' (Widget 7) on_pods)) = switchPage on_pods \<and>
   drawQueue (LastPage (result (SwitchPage ''pods'' (Widget 7) on_pods))) = drawQueue on_pods \<and>
   SwitchPage ''logs'' (Widget 8) on_pods = Inr (result (SwitchPage ''logs'' (Widget 8) on_pods)) \<and>
   ''logs'' \<noteq> currentPage on_pods \<and>
   map_option buf (switchPage on_pods) = Some 0 \<and>
   map_option buf (switchPage (result (SwitchPage ''logs'' (Widget 8) on_pods))) = Some 1"
proof -
  have cur: "currentPage on_pods = ''pods''"
    by code_simp
  have r: "returns (SwitchPage ''logs'' (Widget 8) on_pods)"
    by code_simp
  have sw: "SwitchPage ''logs'' (Widget 8) on_pods =
      Inr (result (SwitchPage ''logs'' (Widget 8) on_pods))"
    by (rule returns_result [OF r])
  have b: "map_option buf (switchPage on_pods) = Some 0"
    by code_simp
  have res: "result (Inr a) = a" for a
    by (simp add: result_def)
  show ?thesis
    using SwitchPage_current_page [of on_pods "''pods''" "Widget 7" "''logs''" "Widget 8"
        "result (SwitchPage ''logs'' (Widget 8) on_pods)"] cur sw b
    by (auto simp: res)
qed

text \<open>
  The claim as it stands fails: on the pods page, reached from the root page, one
  \<open>LastPage\<close> shows the root page; after \<open>SwitchPage\<close> to pods on that page the queue
  holds two entries of pods one after the other, one \<open>LastPage\<close> still shows pods, and
  only the second shows the root page.
\<close>

theorem SwitchPage_current_page_duplicate:
  "currentPage on_pods = ''pods'' \<and>
   shown (LastPage on_pods) = Some ''root'' \<and>
   returns (SwitchPage ''pods'' (Widget 7) on_pods) \<and>
   map PageName (drawQueue (result (SwitchPage ''pods'' (Widget 7) on_pods))) =
     [''root'', ''pods'', ''pods''] \<and>
   shown (LastPage (result (SwitchPage ''pods'' (Widget 7) on_pods))) = Some ''pods'' \<and>
   shown (LastPage (LastPage (result (SwitchPage ''pods'' (Widget 7) on_pods)))) = Some ''root''"
  by code_simp

section \<open>The top of the draw queue\<close>

lemma Last_nonempty: "drawQueue app \<noteq> [] \<Longrightarrow> Last app = last (drawQueue app)"
  by (simp add: Last_def split: list.splits)

text \<open>
  Claim C5, as amended. Right after every call of \<open>SwitchPage\<close> that returns, the top
  entry of the draw queue is the page just switched to, with its view, and that page is
  shown. \<open>SwitchPage\<close> appends on every call, whether or not the name is that of the
  current page: the queue after the call is the queue before it with the entry at its
  end, so a switch to the page that is already active pushes one more entry of the same
  name.
\<close>

theorem SwitchPage_top_of_queue:
  "SwitchPage page v app = Inr app1 \<Longrightarrow>
     Last app1 = \<lparr>PageName = page, Primitive = v\<rparr> \<and>
     drawQueue app1 = drawQueue app @ [\<lparr>PageName = page, Primitive = v\<rparr>] \<and>
     \<not> Empty app1 \<and> shown app1 = Some page \<and> currentPage app1 = page"
proof -
  assume sw: "SwitchPage page v app = Inr app1"
  have q: "drawQueue app1 = drawQueue app @ [\<lparr>PageName = page, Primitive = v\<rparr>]"
    by (rule SwitchPage_Inr_fields(2) [OF sw])
  have "Last app1 = \<lparr>PageName = page, Primitive = v\<rparr>"
    by (simp add: Last_nonempty q)
  moreover have "shown app1 = Some page"
    by (simp add: shown_def SwitchPage_Inr_fields(3) [OF sw] GetFrontPage_AddAndSwitchToPage)
  ultimately show ?thesis
    using q SwitchPage_Inr_fields(1) [OF sw] by (simp add: Empty_def)
qed

theorem SwitchPage_top_of_queue_witness:
  "SwitchPage ''root'' (TableP 0) on_root = Inr (result (SwitchPage ''root'' (TableP 0) on_root)) \<and>
   Last (result (SwitchPage ''root'' (TableP 0) on_root)) =
     \<lparr>PageName = ''root'', Primitive = TableP 0\<rparr> \<and>
   shown (result (SwitchPage ''root'' (TableP 0) on_root)) = Some ''root''"
proof -
  have r: "returns (SwitchPage ''root'' (TableP 0) on_root)"
    by code_simp
  show ?thesis
    using SwitchPage_top_of_queue [OF returns_result [OF r]] returns_result [OF r]
    by simp
qed

text \<open>
  The claim as it stands fails twice. On the root page, with the root page alone in the
  queue, a switch to the root page leaves two entries of the root page in the queue, one
  after the other: it is not a no-op on the queue. And after a switch to pods and one
  \<open>LastPage\<close> the top entry is the root page, while the page last switched to is pods.
\<close>

theorem SwitchPage_pushes_again:
  "currentPage on_root = ''root'' \<and>
   map PageName (drawQueue on_root) = [''root''] \<and>
   returns (SwitchPage ''root'' (TableP 0) on_root) \<and>
   map PageName (drawQueue (result (SwitchPage ''root'' (TableP 0) on_root))) =
     [''root'', ''root''] \<and>
   map Primitive (drawQueue (result (SwitchPage ''root'' (TableP 0) on_root))) =
     [TableP 0, TableP 0] \<and>
   currentPage (LastPage on_pods) = ''pods'' \<and>
   PageName (Last (LastPage on_pods)) = ''root''"
  by code_simp

section \<open>The view of the current page\<close>

text \<open>
  Claim C6, as amended. \<open>CurrentPage\<close> returns the view registered for the current page
  pointer, and when no registration exists for that name it returns the nil table view,
  the zero value of the map, without a panic (it has no branch that fails); it does not
  fall back to the root view. A switch to a page with no view registered leaves
  \<open>CurrentPage\<close> with the nil table view.
\<close>

theorem CurrentPage_registered_or_nil:
  "(lookup_view app (currentPage app) = Some t \<longrightarrow> CurrentPage app = TableP t) \<and>
   (lookup_view app (currentPage app) = None \<longrightarrow> CurrentPage app = NilTableView) \<and>
   (tableViews app = None \<longrightarrow> CurrentPage app = NilTableView) \<and>
   (SwitchPage page p app = Inr app1 \<longrightarrow> lookup_view app page = None \<longrightarrow>
      CurrentPage app1 = NilTableView)"
proof -
  have "CurrentPage app1 = NilTableView"
    if sw: "SwitchPage page p app = Inr app1" and n: "lookup_view app page = None"
    using n
    by (simp add: CurrentPage_def view_primitive_def lookup_view_def
        SwitchPage_Inr_fields(1,5) [OF sw])
  then show ?thesis
    by (simp add: CurrentPage_def view_primitive_def lookup_view_def)
qed

theorem CurrentPage_registered_or_nil_witness:
  "lookup_view on_pods (currentPage on_pods) = Some 1 \<and> CurrentPage on_pods = TableP 1 \<and>
   lookup_view (result (SwitchPage ''logs'' (Widget 3) on_root))
     (currentPage (result (SwitchPage ''logs'' (Widget 3) on_root))) = None \<and>
   SwitchPage ''logs'' (Widget 3) on_root = Inr (result (SwitchPage ''logs'' (Widget 3) on_root)) \<and>
   lookup_view on_root ''logs'' = None \<and>
   CurrentPage (result (SwitchPage ''logs'' (Widget 3) on_root)) = NilTableView \<and>
   tableViews NewAppView = None \<and> CurrentPage NewAppView = NilTableView"
proof -
  have a: "lookup_view on_pods (currentPage on_pods) = Some 1"
    by code_simp
  have b: "lookup_view (result (SwitchPage ''logs'' (Widget 3) on_root))
     (currentPage (result (SwitchPage ''logs'' (Widget 3) on_root))) = None"
    by code_simp
  have c: "tableViews NewAppView = None"
    by (simp add: NewAppView_def)
  have r: "returns (SwitchPage ''logs'' (Widget 3) on_root)"
    by code_simp
  have n: "lookup_view on_root ''logs'' = None"
    by code_simp
  show ?thesis
    using CurrentPage_registered_or_nil [of on_pods 1]
      CurrentPage_registered_or_nil [of on_root 0 "''logs''" "Widget 3"
        "result (SwitchPage ''logs'' (Widget 3) on_root)"]
      CurrentPage_registered_or_nil [of NewAppView 0] a b c n returns_result [OF r]
    by simp
qed

text \<open>
  The claim as it stands fails: after a switch from the root page to a page "logs" that
  has no table view registered, the root view is still registered, and \<open>CurrentPage\<close>
  returns the nil table view, not the root view.
\<close>

theorem CurrentPage_not_root:
  "returns (SwitchPage ''logs'' (Widget 3) on_root) \<and>
   currentPage (result (SwitchPage ''logs'' (Widget 3) on_root)) = ''logs'' \<and>
   lookup_view (result (SwitchPage ''logs'' (Widget 3) on_root)) RootPage = Some 0 \<and>
   CurrentPage (result (SwitchPage ''logs'' (Widget 3) on_root)) = NilTableView \<and>
   CurrentPage (result (SwitchPage ''logs'' (Widget 3) on_root)) \<noteq> TableP 0"
  by code_simp

section \<open>The menu overlay\<close>

text \<open>
  Claim C8, as amended. \<open>ShowMenu\<close> puts the menu panel over the view of the current page
  by a switch to the page that is already current: the pointer and the channel
  \<open>switchPage\<close> stay as they are, the focus goes to the menu, and one entry, the current
  page with the overlay, is appended to the draw queue. It is idempotent: it sets
  \<open>showMenu\<close>, and while \<open>showMenu\<close> is set a call changes nothing. \<open>menuDecor\<close>,
  when it returns, has appended one entry to the draw queue as well.
\<close>

theorem ShowMenu_overlay:
  "(\<not> showMenu app \<longrightarrow>
      (\<exists>app1. ShowMenu app = Inr app1 \<and>
         drawQueue app1 = drawQueue app @
           [\<lparr>PageName = currentPage app,
             Primitive = PagesP [(''menu'', CurrentPage app, True),
                                 (''menu-decor'', Center MenuP 60 15, True)]\<rparr>] \<and>
         currentPage app1 = currentPage app \<and> switchPage app1 = switchPage app \<and>
         shown app1 = Some (currentPage app) \<and> focus app1 = Some MenuP \<and>
         showMenu app1 \<and> ShowMenu app1 = Inr app1)) \<and>
   (showMenu app \<longrightarrow> ShowMenu app = Inr app) \<and>
   (menuDecor page p app = Inr app2 \<longrightarrow>
      drawQueue app2 = drawQueue app @
        [\<lparr>PageName = page,
          Primitive = PagesP (AddPage ''menu'' (center MenuP 30 20) True (AddPage page p True []))\<rparr>])"
proof -
  let ?ov = "PagesP [(''menu'', CurrentPage app, True), (''menu-decor'', Center MenuP 60 15, True)]"
  have ov: "PagesP (AddPage ''menu-decor'' (center MenuP 60 15) True
              (AddPage ''menu'' (CurrentPage app) True [])) = ?ov"
    by (simp add: AddPage_def center_def)
  have first: "\<exists>app1. ShowMenu app = Inr app1 \<and>
         drawQueue app1 = drawQueue app @ [\<lparr>PageName = currentPage app, Primitive = ?ov\<rparr>] \<and>
         currentPage app1 = currentPage app \<and> switchPage app1 = switchPage app \<and>
         shown app1 = Some (currentPage app) \<and> focus app1 = Some MenuP \<and>
         showMenu app1 \<and> ShowMenu app1 = Inr app1"
    if off: "\<not> showMenu app"
  proof -
    obtain a where sw: "SwitchPage (currentPage app) ?ov app = Inr a"
      by (simp add: SwitchPage_same)
    define app1 where "app1 = (SetFocus MenuP a)\<lparr>showMenu := True\<rparr>"
    have sm: "ShowMenu app = Inr app1"
      using off sw by (simp add: ShowMenu_def Let_def ov app1_def)
    have "shown app1 = Some (currentPage app)"
      by (simp add: app1_def shown_def SetFocus_def SwitchPage_Inr_fields(3) [OF sw]
          GetFrontPage_AddAndSwitchToPage)
    moreover have "ShowMenu app1 = Inr app1"
      by (simp add: ShowMenu_def app1_def)
    moreover have "switchPage app1 = switchPage app"
      using SwitchPage_same_signal [OF sw] by (simp add: app1_def SetFocus_def)
    ultimately show ?thesis
      using sm SwitchPage_Inr_fields(1,2) [OF sw]
      by (simp add: app1_def SetFocus_def)
  qed
  have second: "ShowMenu app = Inr app" if "showMenu app"
    using that by (simp add: ShowMenu_def)
  have third: "drawQueue app2 = drawQueue app @
        [\<lparr>PageName = page,
          Primitive = PagesP (AddPage ''menu'' (center MenuP 30 20) True (AddPage page p True []))\<rparr>]"
    if "menuDecor page p app = Inr app2"
    using that SwitchPage_Inr_fields(2) by (simp add: menuDecor_def)
  show ?thesis
    using first second third by blast
qed

theorem ShowMenu_overlay_witness:
  "\<not> showMenu on_root \<and>
   ShowMenu on_root = Inr (result (ShowMenu on_root)) \<and>
   showMenu (result (ShowMenu on_root)) \<and>
   ShowMenu (result (ShowMenu on_root)) = Inr (result (ShowMenu on_root)) \<and>
   menuDecor ''pods'' (TableP 1) on_pods = Inr (result (menuDecor ''pods'' (TableP 1) on_pods)) \<and>
   length (drawQueue (result (menuDecor ''pods'' (TableP 1) on_pods))) =
     length (drawQueue on_pods) + 1"
proof -
  have off: "\<not> showMenu on_root"
    by code_simp
  have r: "returns (menuDecor ''pods'' (TableP 1) on_pods)"
    by code_simp
  obtain app1 where a: "ShowMenu on_root = Inr app1" "showMenu app1" "ShowMenu app1 = Inr app1"
    using ShowMenu_overlay [of on_root] off by blast
  have res: "result (ShowMenu on_root) = app1"
    by (simp add: a(1) result_def)
  have len: "length (drawQueue (result (menuDecor ''pods'' (TableP 1) on_pods))) =
      length (drawQueue on_pods) + 1"
    using ShowMenu_overlay [of on_pods "''pods''" "TableP 1"
        "result (menuDecor ''pods'' (TableP 1) on_pods)"] returns_result [OF r]
    by simp
  show ?thesis
    using off a res len returns_result [OF r] by simp
qed

text \<open>
  The claim as it stands fails: on the root page, with one entry in the draw queue,
  \<open>ShowMenu\<close> returns with two entries in the queue, the second the root page with the
  overlay, and one \<open>LastPage\<close> is what takes the overlay away again.
\<close>

theorem ShowMenu_enqueues:
  "map PageName (drawQueue on_root) = [''root''] \<and>
   returns (ShowMenu on_root) \<and>
   map PageName (drawQueue (result (ShowMenu on_root))) = [''root'', ''root''] \<and>
   Primitive (last (drawQueue (result (ShowMenu on_root)))) =
     PagesP [(''menu'', TableP 0, True), (''menu-decor'', Center MenuP 60 15, True)] \<and>
   drawQueue (result (ShowMenu on_root)) \<noteq> drawQueue on_root \<and>
   drawQueue (LastPage (result (ShowMenu on_root))) = drawQueue on_root"
  by code_simp

section \<open>The scenario of two switches and two steps back\<close>

text \<open>
  Claim C3, as amended. Starting on the root page, after \<open>SwitchPage\<close> to "pods" and
  then \<open>SwitchPage\<close> to "deployments" (each made by \<open>Navigate\<close>, the watch task taking
  its turn after each switch), one call of \<open>LastPage\<close> makes "pods" the page shown, with
  the focus on its view and its entry on top of the draw queue, and a second call of
  \<open>LastPage\<close> makes "root" the page shown; the current page pointer is "deployments"
  after the first call and after the second.
\<close>

theorem two_switches_two_back:
  "observe (\<lambda>a. (shown a, focus a, map PageName (drawQueue a), currentPage a))
     (session [CWatch [], nav (CHR ''1''), CWatch [], nav (CHR ''2''), CWatch []]) =
     Inr (Some ''deployments'', Some (TableP 2), [''root'', ''pods'', ''deployments''],
          ''deployments'') \<and>
   observe (\<lambda>a. (shown a, focus a, map PageName (drawQueue a), currentPage a))
     (session [CWatch [], nav (CHR ''1''), CWatch [], nav (CHR ''2''), CWatch [], CLastPage]) =
     Inr (Some ''pods'', Some (TableP 1), [''root'', ''pods''], ''deployments'') \<and>
   observe (\<lambda>a. (shown a, focus a, map PageName (drawQueue a), currentPage a))
     (session [CWatch [], nav (CHR ''1''), CWatch [], nav (CHR ''2''), CWatch [], CLastPage,
               CLastPage]) =
     Inr (Some ''root'', Some (TableP 0), [''root''], ''deployments'') \<and>
   observe (\<lambda>a. (shown a, focus a, map PageName (drawQueue a), currentPage a))
     (session [CWatch [], nav (CHR ''1''), CWatch [], nav (CHR ''2''), CLastPage, CLastPage]) =
     Inr (Some ''root'', Some (TableP 0), [''root''], ''deployments'')"
  by code_simp

text \<open>
  The claim as it stands fails for the current page pointer: after the first
  \<open>LastPage\<close> it is "deployments", not "pods", and \<open>CurrentPage\<close> returns the view of
  deployments; after the second it is "deployments", not "root".
\<close>

theorem two_switches_two_back_pointer:
  "observe (\<lambda>a. (currentPage a, CurrentPage a))
     (session [CWatch [], nav (CHR ''1''), CWatch [], nav (CHR ''2''), CWatch [], CLastPage]) =
     Inr (''deployments'', TableP 2) \<and>
   observe currentPage
     (session [CWatch [], nav (CHR ''1''), CWatch [], nav (CHR ''2''), CWatch [], CLastPage]) \<noteq>
     Inr ''pods'' \<and>
   observe currentPage
     (session [CWatch [], nav (CHR ''1''), CWatch [], nav (CHR ''2''), CWatch [], CLastPage,
               CLastPage]) \<noteq> Inr ''root''"
  by code_simp

section \<open>Position memory\<close>

lemma keeps_refl: "keeps app app"
  by (simp add: keeps_def)

lemma keeps_trans: "keeps a b \<Longrightarrow> keeps b c \<Longrightarrow> keeps a c"
  by (auto simp: keeps_def)

lemma keeps_SwitchPage: "SwitchPage page p app = Inr app1 \<Longrightarrow> keeps app app1"
  by (simp add: keeps_def SwitchPage_Inr_fields(6,7))

lemma keeps_LastPage: "keeps app (LastPage app)"
  by (simp add: keeps_def LastPage_fields)

lemma keeps_set_view:
  "selected v = selected (views app ! t) \<Longrightarrow> resourceKind v = resourceKind (views app ! t) \<Longrightarrow>
     keeps app (set_view t v app)"
proof -
  assume s: "selected v = selected (views app ! t)"
    and k: "resourceKind v = resourceKind (views app ! t)"
  have "selected ((views app)[t := v] ! u) = selected (views app ! u) \<and>
      resourceKind ((views app)[t := v] ! u) = resourceKind (views app ! u)"
    if "u < length (views app)" for u
    using that s k by (cases "t = u") simp_all
  then show ?thesis
    by (simp add: keeps_def set_view_def)
qed

lemma keeps_draw: "keeps app (draw ds t app)"
proof -
  have "keeps app (set_view t ((views app ! t)\<lparr>cells := cs, search := []\<rparr>) app)" for cs
    by (rule keeps_set_view) simp_all
  then show ?thesis
    by (simp add: draw_def Let_def keeps_def)
qed

lemma keeps_refresh: "refresh f t app = Inr (err, app1) \<Longrightarrow> keeps app app1"
proof -
  assume r: "refresh f t app = Inr (err, app1)"
  have k: "keeps app (set_view t ((views app ! t)\<lparr>dataSource := d\<rparr>) app)" for d
    by (rule keeps_set_view) simp_all
  show ?thesis
    using r k keeps_trans [OF k keeps_draw]
    by (auto simp: refresh_def split: option.splits prod.splits)
qed

lemma keeps_UpdateStatus: "UpdateStatus status isError t app = Inr app1 \<Longrightarrow> keeps app app1"
proof -
  assume u: "UpdateStatus status isError t app = Inr app1"
  then obtain a where sw: "SwitchPage (currentPage app)
      (PagesP (AddPage ''dialog'' (center (StatusBar status isError) 100 5) True
         (case lookup_view app (currentPage app) of
            Some _ \<Rightarrow> AddPage ''status'' (currentPrimitive app) True []
          | None \<Rightarrow> []))) app = Inr a" and e: "app1 = a\<lparr>timers := timers a + 1\<rparr>"
    by (auto simp: UpdateStatus_def Let_def split: sum.splits)
  show ?thesis
    using keeps_SwitchPage [OF sw] by (simp add: keeps_def e)
qed

lemma keeps_run_sync: "run_sync f t app = Inr app1 \<Longrightarrow> keeps app app1"
proof -
  assume r: "run_sync f t app = Inr app1"
  define app0 where "app0 = (case sync (views app ! t) of
                    None \<Rightarrow> app
                  | Some c \<Rightarrow> app\<lparr>chans := (chans app)[c := chan_recv (chans app ! c)]\<rparr>)"
  have k0: "keeps app app0"
    by (simp add: app0_def keeps_def split: option.splits)
  from r obtain err a1 a2 where
    rf: "refresh f t app0 = Inr (err, a1)" and
    us: "(case err of Some msg \<Rightarrow> UpdateStatus msg True t a1 | None \<Rightarrow> Inr a1) = Inr a2" and
    sw: "SwitchPage (currentPage a2) (TableP t) a2 = Inr app1"
    by (auto simp: run_sync_def Let_def app0_def [symmetric] split: sum.splits prod.splits)
  have k2: "keeps a1 a2"
    using us keeps_UpdateStatus keeps_refl by (cases err) auto
  show ?thesis
    using k0 keeps_refresh [OF rf] k2 keeps_SwitchPage [OF sw] keeps_trans by blast
qed

lemma keeps_run: "run es k t app = (out, app1) \<Longrightarrow> keeps app app1"
proof (induction es arbitrary: app)
  case Nil
  then show ?case
    by (auto simp: keeps_refl split: if_splits)
next
  case (Cons e es)
  then show ?case
    by (auto simp: keeps_refl split: if_splits sum.splits dest: keeps_run_sync keeps_trans)
qed

lemma keeps_watch: "watch es app = (out, app1) \<Longrightarrow> keeps app app1"
proof -
  assume w: "watch es app = (out, app1)"
  have a: "keeps app (app\<lparr>switchPage := x, contexts := y\<rparr>)" for x y
    by (simp add: keeps_def)
  have b: "keeps app (app\<lparr>switchPage := x\<rparr>)" for x
    by (simp add: keeps_def)
  show ?thesis
    using w a b
    by (auto simp: watch_def Let_def keeps_refl split: option.splits if_splits
        dest!: keeps_run elim: keeps_trans [rotated])
qed

lemma keeps_Refresh: "keeps app (Refresh t app)"
  by (simp add: Refresh_def keeps_def split: option.splits)

lemma keeps_ShowMenu: "ShowMenu app = Inr app1 \<Longrightarrow> keeps app app1"
  by (auto simp: ShowMenu_def Let_def keeps_def SetFocus_def SwitchPage_Inr_fields(6,7)
      split: if_splits sum.splits)

lemma init_new_view:
  assumes "t = length (views app)"
    and "app1 = init t kind feeder (app\<lparr>views := views app @ [zero_tableView]\<rparr>)"
  shows "keeps app app1"
    and "length (views app1) = Suc (length (views app))"
    and "resourceKind (views app1 ! t) = kind"
    and "pageRows app (Kind kind) = Some p \<Longrightarrow> selected (views app1 ! t) = p"
    and "pageRows app (Kind kind) = None \<Longrightarrow> selected (views app1 ! t) = \<lparr>row = 0, column = 0\<rparr>"
  unfolding assms
  by (auto simp: init_def Let_def set_view_def Select_def keeps_def nth_append zero_tableView_def
      split: option.splits)

lemma keeps_after:
  "keeps a b \<Longrightarrow> t < length (views a) \<Longrightarrow>
     selected (views b ! t) = selected (views a ! t) \<and>
     resourceKind (views b ! t) = resourceKind (views a ! t) \<and> t < length (views b)"
  by (auto simp: keeps_def)

lemma NewTableViewWithArgs_view:
  assumes "NewTableViewWithArgs kind feeder f app = Inr (t, app1)"
  shows "keeps app app1" and "t = length (views app)" and "t < length (views app1)"
    and "resourceKind (views app1 ! t) = kind"
    and "pageRows app (Kind kind) = Some p \<Longrightarrow> selected (views app1 ! t) = p"
proof -
  define a0 where "a0 = init (length (views app)) kind feeder (app\<lparr>views := views app @ [zero_tableView]\<rparr>)"
  from assms obtain err a2 where
    t: "t = length (views app)" and
    rf: "refresh f t a0 = Inr (err, a2)" and
    us: "(case err of Some msg \<Rightarrow> UpdateStatus msg True t a2 | None \<Rightarrow> Inr a2) = Inr app1"
    by (auto simp: NewTableViewWithArgs_def Let_def a0_def [symmetric]
        split: sum.splits prod.splits option.splits)
  have k0: "keeps app a0" and l0: "t < length (views a0)"
    and rk0: "resourceKind (views a0 ! t) = kind"
    using init_new_view(1,2,3) [OF t a0_def [unfolded t [symmetric]]] t by simp_all
  have k2: "keeps a2 app1"
    using us keeps_UpdateStatus keeps_refl by (cases err) auto
  have k01: "keeps a0 app1"
    using keeps_refresh [OF rf] k2 keeps_trans by blast
  show "keeps app app1"
    using k0 k01 keeps_trans by blast
  show "t = length (views app)"
    by (rule t)
  show "t < length (views app1)"
    using keeps_after [OF k01 l0] by simp
  show "resourceKind (views app1 ! t) = kind"
    using keeps_after [OF k01 l0] rk0 by simp
  show "selected (views app1 ! t) = p" if "pageRows app (Kind kind) = Some p"
    using keeps_after [OF k01 l0] init_new_view(4) [OF t a0_def [unfolded t [symmetric]] that]
    by simp
qed

lemma keeps_Navigate: "Navigate PageNav ViewMap f r app = Inr app1 \<Longrightarrow> keeps app app1"
proof -
  assume n: "Navigate PageNav ViewMap f r app = Inr app1"
  show ?thesis
  proof (cases "PageNav r")
    case None
    then show ?thesis
      using n by (simp add: Navigate_def keeps_refl)
  next
    case (Some kind)
    from n Some obtain a2 where
      pre: "(case lookup_view app kind of
               Some _ \<Rightarrow> Inr app
             | None \<Rightarrow>
                 (case NewTableView ViewMap f kind app of
                    Inl e \<Rightarrow> Inl e
                  | Inr (t, a1) \<Rightarrow>
                      (case tableViews a1 of
                         None \<Rightarrow> Inl Panic
                       | Some m \<Rightarrow> Inr (a1\<lparr>tableViews := Some (m(kind \<mapsto> t))\<rparr>)))) = Inr a2"
      and sw: "SwitchPage kind (view_primitive (lookup_view a2 kind)) a2 = Inr app1"
      by (auto simp: Navigate_def split: sum.splits)
    have "keeps app a2"
    proof (cases "lookup_view app kind")
      case None
      with pre obtain t a1 m where
        nv: "NewTableView ViewMap f kind app = Inr (t, a1)" and
        a2: "a2 = a1\<lparr>tableViews := Some (m(kind \<mapsto> t))\<rparr>"
        by (auto split: sum.splits prod.splits option.splits)
      have "keeps app a1"
        using nv NewTableViewWithArgs_view(1) by (simp add: NewTableView_def Let_def)
      then show ?thesis
        by (simp add: a2 keeps_def)
    next
      case (Some u)
      with pre show ?thesis
        by (simp add: keeps_refl)
    qed
    then show ?thesis
      using keeps_SwitchPage [OF sw] keeps_trans by blast
  qed
qed

lemma keeps_single:
  assumes "\<And>t r c. x \<noteq> CSelect t r c" and "perform [x] app = Inr app1"
  shows "keeps app app1"
proof (cases x)
  case (CSwitchPage page p)
  then show ?thesis
    using assms(2) by (auto split: sum.splits dest: keeps_SwitchPage)
next
  case CLastPage
  then show ?thesis
    using assms(2) keeps_LastPage by auto
next
  case (CWatch es)
  then show ?thesis
    using assms(2) by (auto split: prod.splits outcome.splits dest!: keeps_watch)
next
  case (CNavigate PageNav ViewMap f r)
  then show ?thesis
    using assms(2) by (auto split: sum.splits dest: keeps_Navigate)
next
  case (CRefresh t)
  then show ?thesis
    using assms(2) keeps_Refresh by auto
next
  case (CSelect t r c)
  then show ?thesis
    using assms(1) by simp
next
  case CShowMenu
  then show ?thesis
    using assms(2) by (auto split: sum.splits dest: keeps_ShowMenu)
qed

lemma perform_Cons:
  "perform (x # cs) app = (case perform [x] app of Inl e \<Rightarrow> Inl e | Inr app1 \<Rightarrow> perform cs app1)"
  by (cases x) (auto split: sum.splits prod.splits outcome.splits)

lemma keeps_keeps_for: "keeps a b \<Longrightarrow> keeps_for k a b"
  by (simp add: keeps_def keeps_for_def)

lemma keeps_for_refl: "keeps_for k a a"
  by (simp add: keeps_for_def)

lemma keeps_for_trans: "keeps_for k a b \<Longrightarrow> keeps_for k b c \<Longrightarrow> keeps_for k a c"
  by (auto simp: keeps_for_def)

lemma keeps_for_user_select:
  assumes l: "t < length (views app)" and k: "Kind (resourceKind (views app ! t)) \<noteq> k"
  shows "keeps_for k app (user_select t r c app)"
proof -
  have v: "views (user_select t r c app) = (views app)[t := (views app ! t)\<lparr>selected := \<lparr>row = r, column = c\<rparr>\<rparr>]"
    by (simp add: user_select_def selectionChanged_def Select_def set_view_def)
  have p: "pageRows (user_select t r c app) k = pageRows app k"
    using l k by (simp add: user_select_def selectionChanged_def Select_def set_view_def)
  have "resourceKind (views (user_select t r c app) ! u) = resourceKind (views app ! u) \<and>
      (Kind (resourceKind (views app ! u)) = k \<longrightarrow>
         selected (views (user_select t r c app) ! u) = selected (views app ! u))"
    if "u < length (views app)" for u
    using that k v by (cases "t = u") simp_all
  then show ?thesis
    using p by (simp add: keeps_for_def v)
qed

lemma keeps_for_perform:
  "elsewhere k cs app \<Longrightarrow> perform cs app = Inr app1 \<Longrightarrow> keeps_for k app app1"
proof (induction cs arbitrary: app)
  case Nil
  then show ?case
    by (simp add: keeps_for_refl)
next
  case (Cons x cs)
  show ?case
  proof (cases "\<exists>t r c. x = CSelect t r c")
    case True
    then obtain t r c where x: "x = CSelect t r c"
      by blast
    have l: "t < length (views app)" and kd: "Kind (resourceKind (views app ! t)) \<noteq> k"
      and e: "elsewhere k cs (user_select t r c app)"
      using Cons.prems(1) by (simp_all add: x)
    have p: "perform cs (user_select t r c app) = Inr app1"
      using Cons.prems(2) by (simp add: x)
    show ?thesis
      using keeps_for_trans [OF keeps_for_user_select [OF l kd] Cons.IH [OF e p]] .
  next
    case False
    then have ns: "\<And>t r c. x \<noteq> CSelect t r c"
      by blast
    obtain a where a: "perform [x] app = Inr a" and p: "perform cs a = Inr app1"
      using Cons.prems(2) by (auto simp: perform_Cons [of x cs] split: sum.splits)
    have e: "elsewhere k cs a"
      using Cons.prems(1) a ns by (cases x) simp_all
    show ?thesis
      using keeps_for_trans [OF keeps_keeps_for [OF keeps_single [OF ns a]] Cons.IH [OF e p]] .
  qed
qed

text \<open>
  Claim C9. Position memory round-trips, for every page. The function a table view
  registers for its selection changes (\<open>Record\<close> of the spec) overwrites the position
  of the view's kind without a condition, and leaves the positions of all other kinds
  as they are. After it has been called with a row and a column, whatever calls follow
  (switches, steps back, turns of the watch task with their refreshes, menu overlays,
  and selection changes of the user on views of other kinds), the position memory holds
  that row and column for the kind, a view of that kind made afterwards has its
  selection restored to exactly that row and column, and the view itself, when the
  user's selection change was what called the function, still has that selection.
\<close>

theorem position_round_trip:
  "(elsewhere (Kind (resourceKind (views app ! t))) cs (selectionChanged t r c app) \<longrightarrow>
      perform cs (selectionChanged t r c app) = Inr app1 \<longrightarrow>
      pageRows app1 (Kind (resourceKind (views app ! t))) = Some \<lparr>row = r, column = c\<rparr> \<and>
      (\<forall>kind feeder f u app2.
         Kind kind = Kind (resourceKind (views app ! t)) \<longrightarrow>
         NewTableViewWithArgs kind feeder f app1 = Inr (u, app2) \<longrightarrow>
           selected (views app2 ! u) = \<lparr>row = r, column = c\<rparr> \<and>
           pageRows app2 (Kind kind) = Some \<lparr>row = r, column = c\<rparr>)) \<and>
   (t < length (views app) \<longrightarrow>
      elsewhere (Kind (resourceKind (views app ! t))) cs (user_select t r c app) \<longrightarrow>
      perform cs (user_select t r c app) = Inr app3 \<longrightarrow>
        selected (views app3 ! t) = \<lparr>row = r, column = c\<rparr> \<and>
        pageRows app3 (Kind (resourceKind (views app ! t))) = Some \<lparr>row = r, column = c\<rparr>) \<and>
   (\<forall>other. other \<noteq> Kind (resourceKind (views app ! t)) \<longrightarrow>
      pageRows (selectionChanged t r c app) other = pageRows app other)"
proof -
  let ?k = "Kind (resourceKind (views app ! t))"
  let ?p = "\<lparr>row = r, column = c\<rparr>"
  have mem: "pageRows (selectionChanged t r c a) (Kind (resourceKind (views a ! t))) = Some ?p" for a
    by (simp add: selectionChanged_def)
  have first: "pageRows app1 ?k = Some ?p \<and>
      (\<forall>kind feeder f u app2.
         Kind kind = ?k \<longrightarrow>
         NewTableViewWithArgs kind feeder f app1 = Inr (u, app2) \<longrightarrow>
           selected (views app2 ! u) = ?p \<and> pageRows app2 (Kind kind) = Some ?p)"
    if n: "elsewhere ?k cs (selectionChanged t r c app)"
      and p: "perform cs (selectionChanged t r c app) = Inr app1"
  proof -
    have k: "keeps_for ?k (selectionChanged t r c app) app1"
      by (rule keeps_for_perform [OF n p])
    have m1: "pageRows app1 ?k = Some ?p"
      using k mem [of app] by (simp add: keeps_for_def)
    have "selected (views app2 ! u) = ?p \<and> pageRows app2 (Kind kind) = Some ?p"
      if e: "Kind kind = ?k" and nv: "NewTableViewWithArgs kind feeder f app1 = Inr (u, app2)"
      for kind feeder f u app2
    proof -
      have "pageRows app1 (Kind kind) = Some ?p"
        using m1 e by simp
      then show ?thesis
        using NewTableViewWithArgs_view(1,5) [OF nv] by (simp add: keeps_def)
    qed
    then show ?thesis
      using m1 by blast
  qed
  have second: "selected (views app3 ! t) = ?p \<and> pageRows app3 ?k = Some ?p"
    if l: "t < length (views app)" and n: "elsewhere ?k cs (user_select t r c app)"
      and p: "perform cs (user_select t r c app) = Inr app3"
  proof -
    have k: "keeps_for ?k (user_select t r c app) app3"
      by (rule keeps_for_perform [OF n p])
    have s: "selected (views (user_select t r c app) ! t) = ?p"
      using l by (simp add: user_select_def selectionChanged_def Select_def set_view_def)
    have rk: "Kind (resourceKind (views (Select t r c app) ! t)) = ?k"
      using l by (simp add: Select_def set_view_def)
    have rk': "Kind (resourceKind (views (user_select t r c app) ! t)) = ?k"
      using l by (simp add: user_select_def selectionChanged_def Select_def set_view_def)
    have l': "t < length (views (user_select t r c app))"
      using l by (simp add: user_select_def selectionChanged_def Select_def set_view_def)
    have m: "pageRows (user_select t r c app) ?k = Some ?p"
      using mem [of "Select t r c app"] rk by (simp add: user_select_def)
    have "selected (views app3 ! t) = selected (views (user_select t r c app) ! t)"
      using k l' rk' by (simp add: keeps_for_def)
    then show ?thesis
      using s m k by (simp add: keeps_for_def)
  qed
  have third: "pageRows (selectionChanged t r c app) other = pageRows app other"
    if "other \<noteq> ?k" for other
    using that by (simp add: selectionChanged_def)
  show ?thesis
    using first second third by blast
qed

text \<open>
  At work: on the pods page the user selects row 3, goes to deployments, selects row 5
  there, and comes back. The position of pods is still row 3, that of deployments row 5,
  the pods view has row 3 selected, and a pods view made anew has row 3 selected.
\<close>

theorem position_round_trip_witness:
  "Kind (resourceKind (views on_pods ! 1)) = ''pods'' \<and> 1 < length (views on_pods) \<and>
   elsewhere ''pods'' [nav (CHR ''2''), CWatch [], CSelect 2 5 0, nav (CHR ''1''), CWatch []]
     (selectionChanged 1 3 0 on_pods) \<and>
   elsewhere ''pods'' [nav (CHR ''2''), CWatch [], CSelect 2 5 0, nav (CHR ''1''), CWatch []]
     (user_select 1 3 0 on_pods) \<and>
   returns (perform [nav (CHR ''2''), CWatch [], CSelect 2 5 0, nav (CHR ''1''), CWatch []]
              (selectionChanged 1 3 0 on_pods)) \<and>
   pageRows (result (perform [nav (CHR ''2''), CWatch [], CSelect 2 5 0, nav (CHR ''1''), CWatch []]
              (selectionChanged 1 3 0 on_pods))) ''pods'' = Some \<lparr>row = 3, column = 0\<rparr> \<and>
   pageRows (result (perform [nav (CHR ''2''), CWatch [], CSelect 2 5 0, nav (CHR ''1''), CWatch []]
              (selectionChanged 1 3 0 on_pods))) ''deployments'' = Some \<lparr>row = 5, column = 0\<rparr> \<and>
   returns (perform [nav (CHR ''2''), CWatch [], CSelect 2 5 0, nav (CHR ''1''), CWatch []]
              (user_select 1 3 0 on_pods)) \<and>
   selected (views (result (perform [nav (CHR ''2''), CWatch [], CSelect 2 5 0, nav (CHR ''1''),
              CWatch []] (user_select 1 3 0 on_pods))) ! 1) = \<lparr>row = 3, column = 0\<rparr> \<and>
   selected (views (result (perform [nav (CHR ''2''), CWatch [], CSelect 2 5 0, nav (CHR ''1''),
              CWatch []] (user_select 1 3 0 on_pods))) ! 2) = \<lparr>row = 5, column = 0\<rparr> \<and>
   ''root'' \<noteq> ''pods'' \<and>
   pageRows (selectionChanged 1 3 0 (selectionChanged 0 7 0 on_pods)) ''root'' =
     Some \<lparr>row = 7, column = 0\<rparr> \<and>
   (case NewTableViewWithArgs \<lparr>Kind = ''pods'', Title = ''Pods''\<rparr>
           (Some \<lparr>Header = [], Data = []\<rparr>) example_fetch
           (result (perform [nav (CHR ''2''), CWatch [], CSelect 2 5 0, nav (CHR ''1''), CWatch []]
              (selectionChanged 1 3 0 on_pods))) of
      Inl e \<Rightarrow> False
    | Inr (u, app2) \<Rightarrow> u = 3 \<and> selected (views app2 ! u) = \<lparr>row = 3, column = 0\<rparr>)"
proof -
  let ?cs = "[nav (CHR ''2''), CWatch [], CSelect 2 5 0, nav (CHR ''1''), CWatch []]"
  have k: "Kind (resourceKind (views on_pods ! 1)) = ''pods''"
    by code_simp
  have l: "1 < length (views on_pods)"
    by code_simp
  have e1: "elsewhere ''pods'' ?cs (selectionChanged 1 3 0 on_pods)"
    by code_simp
  have e2: "elsewhere ''pods'' ?cs (user_select 1 3 0 on_pods)"
    by code_simp
  have r1: "returns (perform ?cs (selectionChanged 1 3 0 on_pods))"
    by code_simp
  have r2: "returns (perform ?cs (user_select 1 3 0 on_pods))"
    by code_simp
  have d: "pageRows (result (perform ?cs (selectionChanged 1 3 0 on_pods))) ''deployments'' =
      Some \<lparr>row = 5, column = 0\<rparr>"
    by code_simp
  have s2: "selected (views (result (perform ?cs (user_select 1 3 0 on_pods))) ! 2) =
      \<lparr>row = 5, column = 0\<rparr>"
    by code_simp
  have k0: "Kind (resourceKind (views (selectionChanged 0 7 0 on_pods) ! 1)) = ''pods''"
    by code_simp
  have p0: "pageRows (selectionChanged 0 7 0 on_pods) ''root'' = Some \<lparr>row = 7, column = 0\<rparr>"
    by code_simp
  have nv: "(case NewTableViewWithArgs \<lparr>Kind = ''pods'', Title = ''Pods''\<rparr>
           (Some \<lparr>Header = [], Data = []\<rparr>) example_fetch
           (result (perform ?cs (selectionChanged 1 3 0 on_pods))) of
      Inl e \<Rightarrow> False
    | Inr (u, app2) \<Rightarrow> u = 3 \<and> selected (views app2 ! u) = \<lparr>row = 3, column = 0\<rparr>)"
    by code_simp
  have other: "pageRows (selectionChanged 1 3 0 (selectionChanged 0 7 0 on_pods)) ''root'' =
      Some \<lparr>row = 7, column = 0\<rparr>"
    using position_round_trip [of "selectionChanged 0 7 0 on_pods" 1] k0 p0 by simp
  have main: "pageRows (result (perform ?cs (selectionChanged 1 3 0 on_pods))) ''pods'' =
      Some \<lparr>row = 3, column = 0\<rparr>"
    "selected (views (result (perform ?cs (user_select 1 3 0 on_pods))) ! 1) =
      \<lparr>row = 3, column = 0\<rparr>"
    using position_round_trip [of on_pods 1 ?cs 3 0
        "result (perform ?cs (selectionChanged 1 3 0 on_pods))"
        "result (perform ?cs (user_select 1 3 0 on_pods))"]
      k l e1 e2 returns_result [OF r1] returns_result [OF r2]
    by simp_all
  show ?thesis
    using k l e1 e2 r1 r2 d s2 nv other main by simp
qed

section \<open>Facts about the refresh loop\<close>

lemma set_view_same: "set_view t (views app ! t) app = app"
  by (simp add: set_view_def)

lemma refresh_error:
  "dataSource (views app ! t) = Some ds \<Longrightarrow> refresh (Inl msg) t app = Inr (Some msg, app)"
proof -
  assume d: "dataSource (views app ! t) = Some ds"
  have e: "(views app ! t)\<lparr>dataSource := Some ds\<rparr> = views app ! t"
    using d by (metis tableView.surjective tableView.update_convs(2))
  have "set_view t ((views app ! t)\<lparr>dataSource := Some ds\<rparr>) app = app"
    by (simp only: e set_view_same)
  then show ?thesis
    using d by (simp add: refresh_def ds_Refresh_def)
qed

lemma refresh_ok:
  "dataSource (views app ! t) = Some ds \<Longrightarrow>
     refresh (Inr got) t app =
       Inr (None, draw \<lparr>Header = fst got, Data = snd got\<rparr> t
                    (set_view t ((views app ! t)\<lparr>dataSource := Some \<lparr>Header = fst got, Data = snd got\<rparr>\<rparr>) app))"
  by (simp add: refresh_def ds_Refresh_def)

lemma UpdateStatus_returns:
  "UpdateStatus status isError t app =
     Inr ((result (SwitchPage (currentPage app)
             (PagesP (AddPage ''dialog'' (center (StatusBar status isError) 100 5) True
                (case lookup_view app (currentPage app) of
                   Some _ \<Rightarrow> AddPage ''status'' (currentPrimitive app) True []
                 | None \<Rightarrow> []))) app))
          \<lparr>timers := timers app + 1\<rparr>)"
  by (simp add: UpdateStatus_def Let_def SwitchPage_same result_def SetFocus_def Enqueue_def)

text \<open>What one turn of the loop leaves as it was: the contexts and the pointer.\<close>

lemma run_sync_frame:
  assumes "run_sync f t app = Inr app1"
  shows "contexts app1 = contexts app" and "currentPage app1 = currentPage app"
    and "ctx app1 = ctx app" and "switchPage app1 = switchPage app"
    and "length (views app1) = length (views app)"
    and "tableViews app1 = tableViews app"
proof -
  define app0 where "app0 = (case sync (views app ! t) of
                    None \<Rightarrow> app
                  | Some c \<Rightarrow> app\<lparr>chans := (chans app)[c := chan_recv (chans app ! c)]\<rparr>)"
  have f0: "contexts app0 = contexts app" "currentPage app0 = currentPage app"
    "ctx app0 = ctx app" "switchPage app0 = switchPage app" "views app0 = views app"
    "tableViews app0 = tableViews app"
    by (simp_all add: app0_def split: option.splits)
  from assms obtain err a1 a2 where
    rf: "refresh f t app0 = Inr (err, a1)" and
    us: "(case err of Some msg \<Rightarrow> UpdateStatus msg True t a1 | None \<Rightarrow> Inr a1) = Inr a2" and
    sw: "SwitchPage (currentPage a2) (TableP t) a2 = Inr app1"
    by (auto simp: run_sync_def Let_def app0_def [symmetric] split: sum.splits prod.splits)
  have f1: "contexts a1 = contexts app0" "currentPage a1 = currentPage app0"
    "ctx a1 = ctx app0" "switchPage a1 = switchPage app0"
    "length (views a1) = length (views app0)" "tableViews a1 = tableViews app0"
    using rf
    by (auto simp: refresh_def ds_Refresh_def draw_def set_view_def Let_def
        split: option.splits sum.splits)
  have f2: "contexts a2 = contexts a1 \<and> currentPage a2 = currentPage a1 \<and>
    ctx a2 = ctx a1 \<and> switchPage a2 = switchPage a1 \<and> views a2 = views a1 \<and>
    tableViews a2 = tableViews a1"
  proof (cases err)
    case None
    then show ?thesis
      using us by simp
  next
    case (Some msg)
    then show ?thesis
      using us
      by (auto simp: UpdateStatus_returns SwitchPage_same result_def SetFocus_def Enqueue_def)
  qed
  have f3: "contexts app1 = contexts a2" "currentPage app1 = currentPage a2"
    "ctx app1 = ctx a2" "switchPage app1 = switchPage a2" "views app1 = views a2"
    "tableViews app1 = tableViews a2"
    using sw SwitchPage_Inr_fields(1,5,7,9,10) [OF sw] SwitchPage_same_signal [OF sw]
    by simp_all
  show "contexts app1 = contexts app" "currentPage app1 = currentPage app"
    "ctx app1 = ctx app" "switchPage app1 = switchPage app"
    "length (views app1) = length (views app)" "tableViews app1 = tableViews app"
    using f0 f1 f2 f3 by simp_all
qed

lemma run_contexts: "contexts (snd (run es k t app)) = contexts app"
proof (induction es arbitrary: app)
  case Nil
  then show ?case
    by simp
next
  case (Cons e es)
  then show ?case
    by (auto split: sum.splits simp: run_sync_frame(1))
qed

lemma run_Returned: "fst (run es k t app) = Returned \<Longrightarrow> ctx_done k app"
proof (induction es arbitrary: app)
  case Nil
  then show ?case
    by (simp split: if_splits)
next
  case (Cons e es)
  show ?case
  proof (cases "sync_ready t app \<and> \<not> (ctx_done k app \<and> fst e)")
    case False
    then show ?thesis
      using Cons.prems by (auto split: if_splits)
  next
    case True
    then obtain app1 where rs: "run_sync (snd e) t app = Inr app1"
      and r: "fst (run es k t app1) = Returned"
      using Cons.prems by (auto split: sum.splits if_splits)
    have "ctx_done k app1"
      by (rule Cons.IH [OF r])
    then show ?thesis
      by (simp add: ctx_done_def run_sync_frame(1) [OF rs])
  qed
qed

lemma run_sync_error:
  assumes d: "dataSource (views app ! t) = Some ds"
  shows "\<exists>app1. run_sync (Inl msg) t app = Inr app1 \<and>
      views app1 = views app \<and> draws app1 = draws app \<and> timers app1 = timers app + 1 \<and>
      drawQueue app1 = drawQueue app @
        [\<lparr>PageName = currentPage app,
          Primitive = PagesP (AddPage ''dialog'' (center (StatusBar msg True) 100 5) True
             (case lookup_view app (currentPage app) of
                Some _ \<Rightarrow> AddPage ''status'' (currentPrimitive app) True []
              | None \<Rightarrow> []))\<rparr>,
         \<lparr>PageName = currentPage app, Primitive = TableP t\<rparr>] \<and>
      shown app1 = Some (currentPage app) \<and> focus app1 = Some (TableP t)"
proof -
  define app0 where "app0 = (case sync (views app ! t) of
                    None \<Rightarrow> app
                  | Some c \<Rightarrow> app\<lparr>chans := (chans app)[c := chan_recv (chans app ! c)]\<rparr>)"
  have f0: "views app0 = views app" "draws app0 = draws app" "timers app0 = timers app"
    "drawQueue app0 = drawQueue app" "currentPage app0 = currentPage app"
    "lookup_view app0 = lookup_view app" "currentPrimitive app0 = currentPrimitive app"
    by (auto simp: app0_def lookup_view_def split: option.splits)
  have rf: "refresh (Inl msg) t app0 = Inr (Some msg, app0)"
    by (rule refresh_error [of app0 t ds]) (simp add: f0 d)
  show ?thesis
    unfolding run_sync_def Let_def app0_def [symmetric] rf
    by (simp add: UpdateStatus_def SwitchPage_def switch_locked_def SetFocus_def Enqueue_def f0
        shown_def GetFrontPage_AddAndSwitchToPage Let_def cong: option.case_cong)
qed

lemma run_sync_ok:
  assumes l: "t < length (views app)" and d: "dataSource (views app ! t) = Some ds"
  shows "\<exists>app1. run_sync (Inr got) t app = Inr app1 \<and>
      length (views app1) = length (views app) \<and>
      dataSource (views app1 ! t) = Some \<lparr>Header = fst got, Data = snd got\<rparr> \<and>
      sync (views app1 ! t) = sync (views app ! t) \<and>
      draws app1 = draws app + 1 \<and> timers app1 = timers app \<and>
      drawQueue app1 = drawQueue app @ [\<lparr>PageName = currentPage app, Primitive = TableP t\<rparr>]"
proof -
  define app0 where "app0 = (case sync (views app ! t) of
                    None \<Rightarrow> app
                  | Some c \<Rightarrow> app\<lparr>chans := (chans app)[c := chan_recv (chans app ! c)]\<rparr>)"
  have f0: "views app0 = views app" "draws app0 = draws app" "timers app0 = timers app"
    "drawQueue app0 = drawQueue app" "currentPage app0 = currentPage app"
    by (auto simp: app0_def split: option.splits)
  have d0: "dataSource (views app0 ! t) = Some ds"
    by (simp add: f0 d)
  show ?thesis
    unfolding run_sync_def Let_def app0_def [symmetric] refresh_ok [OF d0]
    using l
    by (simp add: SwitchPage_def switch_locked_def SetFocus_def Enqueue_def f0 draw_def Let_def
        set_view_def)
qed

lemma run_sync_returns:
  assumes l: "t < length (views app)" and d: "dataSource (views app ! t) \<noteq> None"
  shows "\<exists>app1. run_sync f t app = Inr app1 \<and> t < length (views app1) \<and>
      dataSource (views app1 ! t) \<noteq> None"
proof -
  obtain ds where ds: "dataSource (views app ! t) = Some ds"
    using d by auto
  show ?thesis
  proof (cases f)
    case (Inl msg)
    then show ?thesis
      using run_sync_error [OF ds, of msg] l ds by auto
  next
    case (Inr got)
    then show ?thesis
      using run_sync_ok [OF l ds, of got] l by auto
  qed
qed

lemma run_no_fault:
  "t < length (views app) \<Longrightarrow> dataSource (views app ! t) \<noteq> None \<Longrightarrow>
     fst (run es k t app) \<noteq> Faulted e"
proof (induction es arbitrary: app)
  case Nil
  then show ?case
    by simp
next
  case (Cons x es)
  obtain app1 where rs: "run_sync (snd x) t app = Inr app1" and l1: "t < length (views app1)"
    and d1: "dataSource (views app1 ! t) \<noteq> None"
    using run_sync_returns [OF Cons.prems] by blast
  show ?case
    using Cons.IH [OF l1 d1] rs by simp
qed

lemma watch_cancels_on_signal:
  "contexts (snd (watch es app)) \<noteq> contexts app \<Longrightarrow>
     \<exists>c. switchPage app = Some c \<and> chan_ready c"
  by (auto simp: watch_def split: option.splits if_splits)

section \<open>A failed re-fetch\<close>

text \<open>
  Claim C7. A failed data re-fetch during a refresh never stops the refresh loop. When
  the loop of a view with a data source takes a refresh signal and the re-fetch fails,
  the turn ends and the loop goes on with its next select; the error has gone through
  \<open>UpdateStatus\<close> (the status bar with the message is pushed over the current page and the
  timer of the status is started), the table has not been drawn again (its cells, and
  the whole view, are as before, and \<open>Draw\<close> has not been called), and the view is
  shown again. The loop returns only when its context is cancelled; it does not cancel
  a context itself and does not stop with a fault; and the watch task cancels only when
  it has received a signal of a page switch.
\<close>

theorem failed_refresh_keeps_loop:
  "(t < length (views app) \<longrightarrow> dataSource (views app ! t) = Some ds \<longrightarrow> sync_ready t app \<longrightarrow>
      \<not> (ctx_done k app \<and> pd) \<longrightarrow>
      (\<exists>app1. run_sync (Inl msg) t app = Inr app1 \<and>
         run ((pd, Inl msg) # es) k t app = run es k t app1 \<and>
         cells (views app1 ! t) = cells (views app ! t) \<and> views app1 = views app \<and>
         draws app1 = draws app \<and> timers app1 = timers app + 1 \<and>
         drawQueue app1 = drawQueue app @
           [\<lparr>PageName = currentPage app,
             Primitive = PagesP (AddPage ''dialog'' (center (StatusBar msg True) 100 5) True
                (case lookup_view app (currentPage app) of
                   Some _ \<Rightarrow> AddPage ''status'' (currentPrimitive app) True []
                 | None \<Rightarrow> []))\<rparr>,
            \<lparr>PageName = currentPage app, Primitive = TableP t\<rparr>] \<and>
         shown app1 = Some (currentPage app))) \<and>
   (fst (run es k t app) = Returned \<longrightarrow> ctx_done k app) \<and>
   contexts (snd (run es k t app)) = contexts app \<and>
   (t < length (views app) \<longrightarrow> dataSource (views app ! t) \<noteq> None \<longrightarrow>
      (\<forall>e. fst (run es k t app) \<noteq> Faulted e)) \<and>
   (contexts (snd (watch es app)) \<noteq> contexts app \<longrightarrow>
      (\<exists>c. switchPage app = Some c \<and> chan_ready c))"
proof -
  have turn: "\<exists>app1. run_sync (Inl msg) t app = Inr app1 \<and>
         run ((pd, Inl msg) # es) k t app = run es k t app1 \<and>
         cells (views app1 ! t) = cells (views app ! t) \<and> views app1 = views app \<and>
         draws app1 = draws app \<and> timers app1 = timers app + 1 \<and>
         drawQueue app1 = drawQueue app @
           [\<lparr>PageName = currentPage app,
             Primitive = PagesP (AddPage ''dialog'' (center (StatusBar msg True) 100 5) True
                (case lookup_view app (currentPage app) of
                   Some _ \<Rightarrow> AddPage ''status'' (currentPrimitive app) True []
                 | None \<Rightarrow> []))\<rparr>,
            \<lparr>PageName = currentPage app, Primitive = TableP t\<rparr>] \<and>
         shown app1 = Some (currentPage app)"
    if d: "dataSource (views app ! t) = Some ds" and r: "sync_ready t app"
      and c: "\<not> (ctx_done k app \<and> pd)"
  proof -
    obtain app1 where a: "run_sync (Inl msg) t app = Inr app1"
      and b: "views app1 = views app" "draws app1 = draws app" "timers app1 = timers app + 1"
      "drawQueue app1 = drawQueue app @
           [\<lparr>PageName = currentPage app,
             Primitive = PagesP (AddPage ''dialog'' (center (StatusBar msg True) 100 5) True
                (case lookup_view app (currentPage app) of
                   Some _ \<Rightarrow> AddPage ''status'' (currentPrimitive app) True []
                 | None \<Rightarrow> []))\<rparr>,
            \<lparr>PageName = currentPage app, Primitive = TableP t\<rparr>]"
      "shown app1 = Some (currentPage app)"
      using run_sync_error [OF d, of msg] by blast
    have "run ((pd, Inl msg) # es) k t app = run es k t app1"
      using r c a by auto
    then show ?thesis
      using a b by simp
  qed
  show ?thesis
    using turn run_Returned [of es k t app] run_contexts [of es k t app]
      run_no_fault [of t app es k] watch_cancels_on_signal [of es app]
    by blast
qed

theorem failed_refresh_keeps_loop_witness:
  "1 < length (views (Refresh 1 (Refresh 1 on_pods))) \<and>
   dataSource (views (Refresh 1 (Refresh 1 on_pods)) ! 1) =
     Some \<lparr>Header = [''NAME'', ''AGE''], Data = [[''a'', ''1d''], [''b'', ''2d'']]\<rparr> \<and>
   sync_ready 1 (Refresh 1 (Refresh 1 on_pods)) \<and>
   \<not> (ctx_done 0 (Refresh 1 (Refresh 1 on_pods)) \<and> False) \<and>
   run [(False, Inl ''timeout''), (False, example_fetch)] 0 1 (Refresh 1 (Refresh 1 on_pods)) =
     run [(False, example_fetch)] 0 1
       (result (run_sync (Inl ''timeout'') 1 (Refresh 1 (Refresh 1 on_pods)))) \<and>
   cells (views (result (run_sync (Inl ''timeout'') 1 (Refresh 1 (Refresh 1 on_pods)))) ! 1) =
     cells (views (Refresh 1 (Refresh 1 on_pods)) ! 1) \<and>
   draws (result (run_sync (Inl ''timeout'') 1 (Refresh 1 (Refresh 1 on_pods)))) =
     draws (Refresh 1 (Refresh 1 on_pods)) \<and>
   fst (run [(False, Inl ''timeout''), (False, example_fetch)] 0 1
          (Refresh 1 (Refresh 1 on_pods))) = Returned \<and>
   ctx_done 0 (Refresh 1 (Refresh 1 on_pods)) \<and>
   draws (snd (run [(False, Inl ''timeout''), (False, example_fetch)] 0 1
          (Refresh 1 (Refresh 1 on_pods)))) = draws on_pods + 1"
proof -
  let ?A = "Refresh 1 (Refresh 1 on_pods)"
  have l: "1 < length (views ?A)"
    by code_simp
  have d: "dataSource (views ?A ! 1) =
     Some \<lparr>Header = [''NAME'', ''AGE''], Data = [[''a'', ''1d''], [''b'', ''2d'']]\<rparr>"
    by code_simp
  have r: "sync_ready 1 ?A"
    by code_simp
  have c: "ctx_done 0 ?A"
    by code_simp
  have out: "fst (run [(False, Inl ''timeout''), (False, example_fetch)] 0 1 ?A) = Returned"
    by code_simp
  have dr: "draws (snd (run [(False, Inl ''timeout''), (False, example_fetch)] 0 1 ?A)) =
      draws on_pods + 1"
    by code_simp
  have res: "result (Inr a) = a" for a
    by (simp add: result_def)
  obtain app1 where a: "run_sync (Inl ''timeout'') 1 ?A = Inr app1"
    and b: "run ((False, Inl ''timeout'') # [(False, example_fetch)]) 0 1 ?A =
        run [(False, example_fetch)] 0 1 app1"
      "cells (views app1 ! 1) = cells (views ?A ! 1)" "draws app1 = draws ?A"
    using failed_refresh_keeps_loop [of 1 ?A _ 0 False "''timeout''" "[(False, example_fetch)]"]
      l d r
    by auto
  show ?thesis
    using l d r c out dr a b by (simp add: res)
qed

section \<open>Refresh signals\<close>

lemma outstanding_go_send: "outstanding (go_send c) = outstanding c + 1"
  by (simp add: outstanding_def go_send_def)

lemma outstanding_chan_recv: "chan_ready c \<Longrightarrow> outstanding (chan_recv c) = outstanding c - 1"
  by (auto simp: outstanding_def chan_recv_def chan_ready_def)

lemma chan_ready_outstanding: "chan_ready c = (0 < outstanding c)"
  by (auto simp: outstanding_def chan_ready_def)

lemma Refresh_chans:
  "sync (views app ! t) = Some c \<Longrightarrow>
     Refresh t app = app\<lparr>chans := (chans app)[c := go_send (chans app ! c)]\<rparr>"
  by (simp add: Refresh_def)

lemma run_sync_ok_chans:
  assumes l: "t < length (views app)" and s: "sync (views app ! t) = Some c"
    and d: "dataSource (views app ! t) = Some ds"
  shows "\<exists>app1. run_sync (Inr got) t app = Inr app1 \<and>
      length (views app1) = length (views app) \<and>
      dataSource (views app1 ! t) = Some \<lparr>Header = fst got, Data = snd got\<rparr> \<and>
      sync (views app1 ! t) = Some c \<and>
      draws app1 = draws app + 1 \<and>
      chans app1 = (chans app)[c := chan_recv (chans app ! c)] \<and>
      contexts app1 = contexts app"
proof -
  define app0 where "app0 = app\<lparr>chans := (chans app)[c := chan_recv (chans app ! c)]\<rparr>"
  have d0: "dataSource (views app0 ! t) = Some ds"
    by (simp add: app0_def d)
  have e: "(case sync (views app ! t) of
              None \<Rightarrow> app
            | Some c \<Rightarrow> app\<lparr>chans := (chans app)[c := chan_recv (chans app ! c)]\<rparr>) = app0"
    by (simp add: s app0_def)
  show ?thesis
    unfolding run_sync_def Let_def e refresh_ok [OF d0]
    using l s
    by (simp add: SwitchPage_def switch_locked_def SetFocus_def Enqueue_def draw_def Let_def
        set_view_def app0_def)
qed

text \<open>
  Claim C2, as amended. \<open>Refresh\<close> is fire-and-forget: it never blocks its caller, it
  only starts the goroutine that sends on the channel of the view, so the application
  is changed in that channel alone. Nothing is dropped: every \<open>Refresh\<close> adds one
  signal to those sent on the channel and not yet received, so after two calls issued
  before the loop has processed the first there are two more of them. A loop that takes
  them both re-renders twice, once for each call: with no other signal pending and
  re-fetches that succeed, \<open>Draw\<close> has been called twice when the loop has no signal
  left.
\<close>

theorem Refresh_signals_not_coalesced:
  "(sync (views app ! t) = Some c \<longrightarrow> c < length (chans app) \<longrightarrow>
      Refresh t app = app\<lparr>chans := (chans app)[c := go_send (chans app ! c)]\<rparr> \<and>
      outstanding (chans (Refresh t app) ! c) = outstanding (chans app ! c) + 1 \<and>
      outstanding (chans (Refresh t (Refresh t app)) ! c) = outstanding (chans app ! c) + 2) \<and>
   (t < length (views app) \<longrightarrow> sync (views app ! t) = Some c \<longrightarrow> c < length (chans app) \<longrightarrow>
      dataSource (views app ! t) = Some ds \<longrightarrow> outstanding (chans app ! c) = 0 \<longrightarrow>
      \<not> (ctx_done k app \<and> (p1 \<or> p2)) \<longrightarrow>
      (\<exists>app2. run [(p1, Inr g1), (p2, Inr g2)] k t (Refresh t (Refresh t app)) =
                 (if ctx_done k app then Returned else Waiting, app2) \<and>
         draws app2 = draws app + 2 \<and> outstanding (chans app2 ! c) = 0))"
proof -
  have sent: "Refresh t app = app\<lparr>chans := (chans app)[c := go_send (chans app ! c)]\<rparr> \<and>
      outstanding (chans (Refresh t app) ! c) = outstanding (chans app ! c) + 1 \<and>
      outstanding (chans (Refresh t (Refresh t app)) ! c) = outstanding (chans app ! c) + 2"
    if s: "sync (views app ! t) = Some c" and c: "c < length (chans app)"
    using s c by (simp add: Refresh_def outstanding_go_send)
  have loop: "\<exists>app2. run [(p1, Inr g1), (p2, Inr g2)] k t (Refresh t (Refresh t app)) =
                 (if ctx_done k app then Returned else Waiting, app2) \<and>
         draws app2 = draws app + 2 \<and> outstanding (chans app2 ! c) = 0"
    if l: "t < length (views app)" and s: "sync (views app ! t) = Some c"
      and c: "c < length (chans app)" and d: "dataSource (views app ! t) = Some ds"
      and z: "outstanding (chans app ! c) = 0" and pd: "\<not> (ctx_done k app \<and> (p1 \<or> p2))"
  proof -
    define A where "A = Refresh t (Refresh t app)"
    have A: "views A = views app" "contexts A = contexts app" "draws A = draws app"
      "length (chans A) = length (chans app)" "outstanding (chans A ! c) = 2"
      using s c z by (simp_all add: A_def Refresh_def outstanding_go_send)
    obtain a1 where r1: "run_sync (Inr g1) t A = Inr a1"
      and a1: "length (views a1) = length (views A)"
        "dataSource (views a1 ! t) = Some \<lparr>Header = fst g1, Data = snd g1\<rparr>"
        "sync (views a1 ! t) = Some c" "draws a1 = draws A + 1"
        "chans a1 = (chans A)[c := chan_recv (chans A ! c)]" "contexts a1 = contexts A"
      using run_sync_ok_chans [of t A c ds g1] l s d A(1) by auto
    have o1: "outstanding (chans a1 ! c) = 1"
      using a1(5) A(4,5) c by (simp add: outstanding_chan_recv chan_ready_outstanding)
    obtain a2 where r2: "run_sync (Inr g2) t a1 = Inr a2"
      and a2: "sync (views a2 ! t) = Some c" "draws a2 = draws a1 + 1"
        "chans a2 = (chans a1)[c := chan_recv (chans a1 ! c)]" "contexts a2 = contexts a1"
      using run_sync_ok_chans [of t a1 c _ g2] l a1(1,2,3) A(1) by auto
    have o2: "outstanding (chans a2 ! c) = 0"
      using a2(3) a1(5) A(4) o1 c by (simp add: outstanding_chan_recv chan_ready_outstanding)
    have rA: "sync_ready t A"
      using s A(1,5) by (simp add: sync_ready_def chan_ready_outstanding)
    have ra1: "sync_ready t a1"
      using a1(3) o1 by (simp add: sync_ready_def chan_ready_outstanding)
    have ra2: "\<not> sync_ready t a2"
      using a2(1) o2 by (simp add: sync_ready_def chan_ready_outstanding)
    have dn: "ctx_done k A = ctx_done k app" "ctx_done k a1 = ctx_done k app"
      "ctx_done k a2 = ctx_done k app"
      by (simp_all add: ctx_done_def A(2) a1(6) a2(4))
    have "run [(p1, Inr g1), (p2, Inr g2)] k t A =
        (if ctx_done k app then Returned else Waiting, a2)"
      using rA ra1 ra2 r1 r2 dn pd by auto
    then show ?thesis
      using a2(2) a1(4) A(3) o2 by (auto simp: A_def)
  qed
  show ?thesis
    using sent loop by blast
qed

theorem Refresh_signals_not_coalesced_witness:
  "1 < length (views on_pods) \<and> sync (views on_pods ! 1) = Some 1 \<and>
   1 < length (chans on_pods) \<and>
   dataSource (views on_pods ! 1) =
     Some \<lparr>Header = [''NAME'', ''AGE''], Data = [[''a'', ''1d''], [''b'', ''2d'']]\<rparr> \<and>
   outstanding (chans on_pods ! 1) = 0 \<and> ctx_done 0 on_pods \<and>
   outstanding (chans (Refresh 1 (Refresh 1 on_pods)) ! 1) = 2 \<and>
   fst (run [(False, Inr ([''NAME''], [[''c'']])), (False, Inr ([''NAME''], [[''d'']]))] 0 1
          (Refresh 1 (Refresh 1 on_pods))) = Returned \<and>
   draws (snd (run [(False, Inr ([''NAME''], [[''c'']])), (False, Inr ([''NAME''], [[''d'']]))] 0 1
          (Refresh 1 (Refresh 1 on_pods)))) = draws on_pods + 2"
proof -
  have l: "1 < length (views on_pods)"
    by code_simp
  have s: "sync (views on_pods ! 1) = Some 1"
    by code_simp
  have c: "1 < length (chans on_pods)"
    by code_simp
  have d: "dataSource (views on_pods ! 1) =
     Some \<lparr>Header = [''NAME'', ''AGE''], Data = [[''a'', ''1d''], [''b'', ''2d'']]\<rparr>"
    by code_simp
  have z: "outstanding (chans on_pods ! 1) = 0"
    by code_simp
  have dn: "ctx_done 0 on_pods"
    by code_simp
  note T = Refresh_signals_not_coalesced [of on_pods 1 1
      "\<lparr>Header = [''NAME'', ''AGE''], Data = [[''a'', ''1d''], [''b'', ''2d'']]\<rparr>" 0 False False
      "([''NAME''], [[''c'']])" "([''NAME''], [[''d'']])"]
  have o: "outstanding (chans (Refresh 1 (Refresh 1 on_pods)) ! 1) =
      outstanding (chans on_pods ! 1) + 2"
    using T s c by blast
  obtain app2 where
    r: "run [(False, Inr ([''NAME''], [[''c'']])), (False, Inr ([''NAME''], [[''d'']]))] 0 1
          (Refresh 1 (Refresh 1 on_pods)) =
        (if ctx_done 0 on_pods then Returned else Waiting, app2)"
    and dr: "draws app2 = draws on_pods + 2"
    using T l s c d z by blast
  have out: "fst (run [(False, Inr ([''NAME''], [[''c'']])), (False, Inr ([''NAME''], [[''d'']]))] 0 1
          (Refresh 1 (Refresh 1 on_pods))) = Returned"
    unfolding r using dn by simp
  have dr': "draws (snd (run [(False, Inr ([''NAME''], [[''c'']])), (False, Inr ([''NAME''], [[''d'']]))] 0 1
          (Refresh 1 (Refresh 1 on_pods)))) = draws on_pods + 2"
    unfolding r using dr by simp
  have o': "outstanding (chans (Refresh 1 (Refresh 1 on_pods)) ! 1) = 2"
    using o z by simp
  show ?thesis
    using l s c d z dn o' out dr' by blast
qed

text \<open>
  The claim as it stands fails: the second request is not dropped. On the pods page two
  calls of \<open>Refresh\<close> leave two signals on the channel of the pods view; and when
  the two calls are made before the watch task has started the loop of the pods view,
  that loop takes them both and \<open>Draw\<close> is called twice more, not once.
\<close>

theorem Refresh_twice_two_renders:
  "observe (\<lambda>a. (currentPage a, draws a, map outstanding (chans a)))
     (session [CWatch [], nav (CHR ''1''), CWatch [], CRefresh 1, CRefresh 1]) =
     Inr (''pods'', 2, [0, 2]) \<and>
   observe (\<lambda>a. (currentPage a, draws a, map outstanding (chans a)))
     (session [CWatch [], nav (CHR ''1''), CRefresh 1, CRefresh 1,
               CWatch [(False, example_fetch), (False, example_fetch)]]) =
     Inr (''pods'', 4, [0, 0])"
  by code_simp

section \<open>The loop the watch task runs\<close>

lemma run_ctx: "ctx (snd (run es k t app)) = ctx app"
proof (induction es arbitrary: app)
  case Nil
  then show ?case
    by simp
next
  case (Cons e es)
  then show ?case
    by (auto split: sum.splits simp: run_sync_frame(3))
qed

lemma run_done_not_Waiting: "ctx_done k app \<Longrightarrow> fst (run es k t app) \<noteq> Waiting"
proof (induction es arbitrary: app)
  case Nil
  then show ?case
    by simp
next
  case (Cons e es)
  have "ctx_done k app1" if "run_sync (snd e) t app = Inr app1" for app1
    using Cons.prems run_sync_frame(1) [OF that] by (simp add: ctx_done_def)
  then show ?case
    using Cons.IH Cons.prems by (auto split: sum.splits)
qed

lemma run_done_idle: "ctx_done k app \<Longrightarrow> \<not> sync_ready t app \<Longrightarrow> run es k t app = (Returned, app)"
  by (cases es) simp_all

text \<open>
  Claim C1 is right and the code is wrong. What \<open>watch\<close> does on a signal of a page
  switch, for every application and every choice of the runtime: it cancels the context
  of the application and hands that same context, cancelled, to the loop of the current
  page; no context is made, so every activation gets the one context of \<open>Init\<close>. The
  loop it starts is therefore never left waiting for refresh signals: with no refresh
  signal pending it returns at its first select, and nothing but the received signal and
  the cancelled flag has changed.
\<close>

theorem watch_hands_over_cancelled_context:
  "switchPage app = Some c \<longrightarrow> chan_ready c \<longrightarrow> ctx app = Some k \<longrightarrow> k < length (contexts app) \<longrightarrow>
   lookup_view app (currentPage app) = Some t \<longrightarrow>
     ctx_done k (snd (watch es app)) \<and> ctx (snd (watch es app)) = Some k \<and>
     length (contexts (snd (watch es app))) = length (contexts app) \<and>
     fst (watch es app) \<noteq> Waiting \<and>
     (\<not> sync_ready t app \<longrightarrow>
        watch es app =
          (Returned, app\<lparr>switchPage := Some (chan_recv c), contexts := (contexts app)[k := True]\<rparr>))"
proof -
  have "ctx_done k (snd (watch es app)) \<and> ctx (snd (watch es app)) = Some k \<and>
     length (contexts (snd (watch es app))) = length (contexts app) \<and>
     fst (watch es app) \<noteq> Waiting \<and>
     (\<not> sync_ready t app \<longrightarrow>
        watch es app =
          (Returned, app\<lparr>switchPage := Some (chan_recv c), contexts := (contexts app)[k := True]\<rparr>))"
    if s: "switchPage app = Some c" and r: "chan_ready c" and x: "ctx app = Some k"
      and k: "k < length (contexts app)" and v: "lookup_view app (currentPage app) = Some t"
  proof -
    define app2 where
      "app2 = app\<lparr>switchPage := Some (chan_recv c), contexts := (contexts app)[k := True]\<rparr>"
    have v2: "lookup_view app2 (currentPage app2) = Some t"
      using v by (simp add: app2_def lookup_view_def)
    have w: "watch es app = run es k t app2"
      using s r x v2 by (simp add: watch_def Let_def app2_def)
    have dn: "ctx_done k app2"
      using k by (simp add: app2_def ctx_done_def)
    have sr: "sync_ready t app2 = sync_ready t app"
      by (simp add: app2_def sync_ready_def cong: option.case_cong)
    have "ctx_done k (snd (run es k t app2))"
      using dn by (simp add: ctx_done_def run_contexts)
    moreover have "ctx (snd (run es k t app2)) = Some k"
      using x by (simp add: run_ctx app2_def)
    moreover have "length (contexts (snd (run es k t app2))) = length (contexts app)"
      by (simp add: run_contexts app2_def)
    moreover have "fst (run es k t app2) \<noteq> Waiting"
      by (rule run_done_not_Waiting [OF dn])
    moreover have "run es k t app2 = (Returned, app2)" if "\<not> sync_ready t app"
      using run_done_idle [OF dn] that sr by simp
    ultimately show ?thesis
      unfolding w by (simp add: app2_def)
  qed
  then show ?thesis
    by blast
qed

text \<open>
  The failing input: \<open>Init\<close>, then a switch to pods and a switch to deployments, the
  watch task taking its turn after each switch and no refresh pending. The loop of the
  root page, then that of pods, then that of deployments has returned from its first
  select: no loop is watching while deployments is the current page. There is one
  context from beginning to end, cancelled at the first turn of the watch task. A
  refresh of the deployments view made afterwards stays pending: the watch task is
  waiting for a switch, and no loop is there to take it.
\<close>

theorem watch_hands_over_cancelled_context_witness:
  "map_option chan_ready (switchPage (result (session [CWatch [], nav (CHR ''1''), CWatch [],
       nav (CHR ''2'')]))) = Some True \<and>
   observe (\<lambda>a. (currentPage a, contexts a, ctx a, lookup_view a (currentPage a)))
     (session [CWatch [], nav (CHR ''1''), CWatch [], nav (CHR ''2'')]) =
     Inr (''deployments'', [True], Some 0, Some 2) \<and>
   \<not> sync_ready 2 (result (session [CWatch [], nav (CHR ''1''), CWatch [], nav (CHR ''2'')])) \<and>
   fst (watch [] (result (session []))) = Returned \<and>
   fst (watch [] (result (session [CWatch [], nav (CHR ''1'')]))) = Returned \<and>
   fst (watch [] (result (session [CWatch [], nav (CHR ''1''), CWatch [], nav (CHR ''2'')]))) =
     Returned \<and>
   observe (\<lambda>a. (currentPage a, contexts a, ctx a)) (session []) =
     Inr (''root'', [False], Some 0) \<and>
   observe (\<lambda>a. (currentPage a, contexts a, ctx a)) (session [CWatch []]) =
     Inr (''root'', [True], Some 0) \<and>
   observe (\<lambda>a. (currentPage a, contexts a, ctx a))
     (session [CWatch [], nav (CHR ''1''), CWatch [], nav (CHR ''2''), CWatch []]) =
     Inr (''deployments'', [True], Some 0) \<and>
   fst (watch [(False, example_fetch)] (Refresh 2 on_deployments)) = Waiting \<and>
   map outstanding (chans (snd (watch [(False, example_fetch)] (Refresh 2 on_deployments)))) =
     [0, 0, 1]"
proof -
  let ?A = "result (session [CWatch [], nav (CHR ''1''), CWatch [], nav (CHR ''2'')])"
  have s: "switchPage ?A = Some \<lparr>cap = 1, buf = 1, senders = 0\<rparr>"
    by code_simp
  have r: "chan_ready \<lparr>cap = 1, buf = 1, senders = 0\<rparr>"
    by (simp add: chan_ready_def)
  have x: "ctx ?A = Some 0"
    by code_simp
  have k: "0 < length (contexts ?A)"
    by code_simp
  have v: "lookup_view ?A (currentPage ?A) = Some 2"
    by code_simp
  have i: "\<not> sync_ready 2 ?A"
    by code_simp
  have w: "fst (watch [] ?A) = Returned"
    using watch_hands_over_cancelled_context [of ?A "\<lparr>cap = 1, buf = 1, senders = 0\<rparr>" 0 2 "[]"]
      s r x k v i
    by simp
  have rest: "map_option chan_ready (switchPage ?A) = Some True"
    "observe (\<lambda>a. (currentPage a, contexts a, ctx a, lookup_view a (currentPage a)))
     (session [CWatch [], nav (CHR ''1''), CWatch [], nav (CHR ''2'')]) =
     Inr (''deployments'', [True], Some 0, Some 2)"
    "fst (watch [] (result (session []))) = Returned"
    "fst (watch [] (result (session [CWatch [], nav (CHR ''1'')]))) = Returned"
    "observe (\<lambda>a. (currentPage a, contexts a, ctx a)) (session []) =
     Inr (''root'', [False], Some 0)"
    "observe (\<lambda>a. (currentPage a, contexts a, ctx a)) (session [CWatch []]) =
     Inr (''root'', [True], Some 0)"
    "observe (\<lambda>a. (currentPage a, contexts a, ctx a))
     (session [CWatch [], nav (CHR ''1''), CWatch [], nav (CHR ''2''), CWatch []]) =
     Inr (''deployments'', [True], Some 0)"
    "fst (watch [(False, example_fetch)] (Refresh 2 on_deployments)) = Waiting"
    "map outstanding (chans (snd (watch [(False, example_fetch)] (Refresh 2 on_deployments)))) =
     [0, 0, 1]"
    by (code_simp, code_simp, code_simp, code_simp, code_simp, code_simp, code_simp, code_simp,
        code_simp)
  show ?thesis
    using w i rest by blast
qed

end
